theory Spec2Isabelle
  imports Main "HOL-Library.Sublist"
begin

section \<open>Agent profiles page: deleting a profile\<close>

text \<open>
  From \<^verbatim>\<open>web/frontend/lib/api.ts\<close> (interface \<^verbatim>\<open>AgentProfile\<close>) and
  \<^verbatim>\<open>web/frontend/app/(main)/ai-teams/page.tsx\<close> (\<^verbatim>\<open>handleDeleteProfile\<close>).
  Only the fields the handler reads are listed; the remaining fields of the interface
  live in the record's extension. The field \<^verbatim>\<open>id\<close> is called \<open>profile_id\<close> here.
\<close>

record AgentProfile =
  profile_id :: string
  agent_type :: string
  display_name :: string
  is_custom :: bool
  is_enabled :: bool

text \<open>
  What a rejected promise carries into the \<^verbatim>\<open>catch (err)\<close> clause: an
  \<^verbatim>\<open>Error\<close> object with its message (what \<^verbatim>\<open>fetchApiWithAuth\<close> throws on a
  response that is not ok), or some other thrown value.
\<close>

datatype thrown = ErrorObject string | OtherValue

text \<open>The three pieces of React state the handler writes.\<close>

record page_state =
  profiles :: "AgentProfile list"
  selectedProfile :: "AgentProfile option"
  error :: "string option"

text \<open>
  \<^verbatim>\<open>
  const handleDeleteProfile = async (profile: AgentProfile) => {
      if (!profile.is_custom) {
          setError('Cannot delete default agents');
          return;
      }
      if (!confirm(`... "${profile.display_name}" ...`)) return;
      try {
          await agentApi.deleteProfile(profile.id);
          setProfiles(profiles.filter((p) => p.id !== profile.id));
          if (selectedProfile?.id === profile.id) {
              setSelectedProfile(null);
          }
      } catch (err) {
          setError(err instanceof Error ? err.message : 'Failed to delete agent');
      }
  };
  \<close>
  The browser's \<^verbatim>\<open>confirm\<close> dialog is the user's answer, a function of the
  name shown; \<^verbatim>\<open>agentApi.deleteProfile\<close> is the server's answer to the DELETE
  request for an id (\<open>Inl\<close> when the promise rejects). The handler returns the new
  page state together with the ids for which a DELETE request was sent, so that
  "no request was made" can be stated.
\<close>

definition handleDeleteProfile ::
  "(string \<Rightarrow> bool) \<Rightarrow> (string \<Rightarrow> thrown + unit) \<Rightarrow> page_state \<Rightarrow> AgentProfile
     \<Rightarrow> page_state \<times> string list" where
  "handleDeleteProfile confirm deleteProfile st profile =
     (if \<not> is_custom profile then (st\<lparr>error := Some ''Cannot delete default agents''\<rparr>, [])
      else if \<not> confirm (display_name profile) then (st, [])
      else (case deleteProfile (profile_id profile) of
              Inr _ \<Rightarrow>
                (st\<lparr>profiles := filter (\<lambda>p. profile_id p \<noteq> profile_id profile) (profiles st),
                    selectedProfile :=
                      (case selectedProfile st of
                         None \<Rightarrow> None
                       | Some s \<Rightarrow> if profile_id s = profile_id profile then None else Some s)\<rparr>,
                 [profile_id profile])
            | Inl err \<Rightarrow>
                (st\<lparr>error := Some (case err of ErrorObject message \<Rightarrow> message
                                               | OtherValue \<Rightarrow> ''Failed to delete agent'')\<rparr>,
                 [profile_id profile])))"

text \<open>Two profiles for evaluating the handler: a default agent and a user-created one.\<close>

definition default_explorer :: AgentProfile where
  "default_explorer =
     \<lparr>profile_id = ''p1'', agent_type = ''explorer'', display_name = ''Explorer'',
      is_custom = False, is_enabled = True\<rparr>"

definition custom_analyst :: AgentProfile where
  "custom_analyst =
     \<lparr>profile_id = ''p2'', agent_type = ''analyst'', display_name = ''Analyst (Clone)'',
      is_custom = True, is_enabled = True\<rparr>"


section \<open>The research event stream client\<close>

subsection \<open>JavaScript strings and numbers\<close>

text \<open>
  A JavaScript string is a sequence of UTF-16 code units, the numbers below 65536:
  the lines of a response, the texts handed to \<^verbatim>\<open>JSON.parse\<close> and the strings
  and keys it returns are such sequences. \<open>units\<close> writes the string whose code units
  are the characters of a literal.
\<close>

type_synonym js_string = "nat list"

definition units :: "string \<Rightarrow> js_string" where
  "units s = map of_char s"

text \<open>
  A JavaScript number is a double. \<open>Finite s m e\<close> is the double \<open>m * 2 ^ e\<close>, negative
  when \<open>s\<close>, in its one normal form: \<open>0 \<le> m < 2 ^ 53\<close>, and either \<open>2 ^ 52 \<le> m\<close> with
  \<open>- 1074 \<le> e \<le> 971\<close>, or \<open>e = - 1074\<close> (the subnormal numbers and the two zeros).
  \<open>Infinite s\<close> is \<^verbatim>\<open>Infinity\<close> or \<^verbatim>\<open>-Infinity\<close>, which a numeral too large for
  a double reads as. \<^verbatim>\<open>NaN\<close> is not the value of any numeral.
\<close>

datatype number = Finite bool int int | Infinite bool

text \<open>The number of binary digits of a positive integer.\<close>

function bit_length :: "int \<Rightarrow> int" where
  "bit_length n = (if n \<le> 0 then 0 else 1 + bit_length (n div 2))"
  by pat_completeness auto
termination
  by (relation "measure nat") auto

declare bit_length.simps [simp del]

text \<open>The integer nearest to \<open>p / q\<close>, the even one of two equally near (\<open>0 \<le> p\<close>, \<open>0 < q\<close>).\<close>

definition round_half_even :: "int \<Rightarrow> int \<Rightarrow> int" where
  "round_half_even p q =
     (let d = p div q; r = p mod q
      in if 2 * r < q then d
         else if q < 2 * r then d + 1
         else if even d then d else d + 1)"

text \<open>
  The largest \<open>l\<close> with \<open>2 ^ l \<le> p / q\<close>, for positive \<open>p\<close> and \<open>q\<close>: the difference
  of the bit lengths, or one less.
\<close>

definition floor_log2 :: "int \<Rightarrow> int \<Rightarrow> int" where
  "floor_log2 p q =
     (let l = bit_length p - bit_length q
      in if (if 0 \<le> l then q * 2 ^ nat l \<le> p else q \<le> p * 2 ^ nat (- l)) then l else l - 1)"

text \<open>
  The double that the decimal numeral \<open>m * 10 ^ e\<close> (\<open>0 \<le> m\<close>) reads as: the nearest
  double, the one with the even significand of two equally near, as the JavaScript
  engines round. The quotient \<open>p / q\<close> is the exact value, \<open>k\<close> the exponent of the
  double (at least that of the subnormal numbers) and \<open>s\<close> the rounded significand,
  which may reach \<open>2 ^ 53\<close> and then moves to the next exponent.
\<close>

definition to_double :: "bool \<Rightarrow> int \<Rightarrow> int \<Rightarrow> number" where
  "to_double neg m e =
     (if m = 0 then Finite neg 0 (- 1074)
      else
        (let p = (if 0 \<le> e then m * 10 ^ nat e else m);
             q = (if 0 \<le> e then 1 else 10 ^ nat (- e));
             k = max (floor_log2 p q - 52) (- 1074);
             s = (if 0 \<le> k then round_half_even p (q * 2 ^ nat k)
                  else round_half_even (p * 2 ^ nat (- k)) q);
             k' = (if s = 2 ^ 53 then k + 1 else k);
             s' = (if s = 2 ^ 53 then 2 ^ 52 else s)
         in if 971 < k' then Infinite neg else Finite neg s' k'))"

subsection \<open>The values of \<^verbatim>\<open>JSON.parse\<close>\<close>

text \<open>
  \<^verbatim>\<open>researchApi.executeResearch\<close> (\<^verbatim>\<open>web/frontend/lib/api.ts\<close>) hands each
  payload to the built-in \<^verbatim>\<open>JSON.parse\<close>. Its results are the JSON values; an
  object is the list of its members in the order of the text.
\<close>

datatype json =
    JNull
  | JBool bool
  | JNum number
  | JStr js_string
  | JArr "json list"
  | JObj "(js_string \<times> json) list"

text \<open>
  \<^verbatim>\<open>JSON.parse\<close> is not code of the repository, so the client below takes the parser
  as a parameter \<open>parse\<close> (\<open>None\<close> when it throws \<^verbatim>\<open>SyntaxError\<close>) and every general
  statement holds for all parsers. To evaluate the client on concrete response bodies,
  \<open>JSON_parse\<close> reads the JSON grammar as \<^verbatim>\<open>JSON.parse\<close> does: white space, the
  three literals, numbers (read as doubles), strings with the two-character escapes and
  the \<^verbatim>\<open>\u\<close> escapes of four hexadecimal digits, arrays and objects.
\<close>

definition is_ws :: "nat \<Rightarrow> bool" where
  "is_ws c = (c = of_char CHR '' '' \<or> c = of_char CHR 0x09 \<or> c = of_char CHR 0x0A
              \<or> c = of_char CHR 0x0D)"

definition is_digit :: "nat \<Rightarrow> bool" where
  "is_digit c = (of_char CHR ''0'' \<le> c \<and> c \<le> of_char CHR ''9'')"

definition digit_val :: "nat \<Rightarrow> int" where
  "digit_val c = int c - of_char CHR ''0''"

definition digits_val :: "js_string \<Rightarrow> int" where
  "digits_val ds = foldl (\<lambda>acc c. 10 * acc + digit_val c) 0 ds"

definition skip_ws :: "js_string \<Rightarrow> js_string" where
  "skip_ws s = dropWhile is_ws s"

text \<open>A number is an optional minus, an integer part, an optional fraction and an optional exponent.\<close>

definition parse_int_part :: "js_string \<Rightarrow> (js_string \<times> js_string) option" where
  "parse_int_part s =
     (case s of
        [] \<Rightarrow> None
      | c # cs \<Rightarrow>
          if c = of_char CHR ''0'' then Some ([c], cs)
          else if is_digit c then Some (takeWhile is_digit s, dropWhile is_digit s)
          else None)"

definition parse_frac :: "js_string \<Rightarrow> (js_string \<times> js_string) option" where
  "parse_frac s =
     (case s of
        c # cs \<Rightarrow>
          if c = of_char CHR ''.'' then
            (if takeWhile is_digit cs = [] then None
             else Some (takeWhile is_digit cs, dropWhile is_digit cs))
          else Some ([], s)
      | [] \<Rightarrow> Some ([], s))"

definition parse_exp_digits :: "bool \<Rightarrow> js_string \<Rightarrow> (int \<times> js_string) option" where
  "parse_exp_digits neg s =
     (if takeWhile is_digit s = [] then None
      else Some ((if neg then - digits_val (takeWhile is_digit s)
                  else digits_val (takeWhile is_digit s)),
                 dropWhile is_digit s))"

definition parse_exp :: "js_string \<Rightarrow> (int \<times> js_string) option" where
  "parse_exp s =
     (case s of
        c # cs \<Rightarrow>
          if c = of_char CHR ''e'' \<or> c = of_char CHR ''E'' then
            (case cs of
               d # ds \<Rightarrow>
                 if d = of_char CHR ''+'' then parse_exp_digits False ds
                 else if d = of_char CHR ''-'' then parse_exp_digits True ds
                 else parse_exp_digits False cs
             | [] \<Rightarrow> None)
          else Some (0, s)
      | [] \<Rightarrow> Some (0, s))"

definition parse_number :: "js_string \<Rightarrow> (json \<times> js_string) option" where
  "parse_number s =
     (let neg = (case s of c # _ \<Rightarrow> c = of_char CHR ''-'' | [] \<Rightarrow> False);
          s1 = (if neg then tl s else s)
      in case parse_int_part s1 of
           None \<Rightarrow> None
         | Some (ip, s2) \<Rightarrow>
             (case parse_frac s2 of
                None \<Rightarrow> None
              | Some (fp, s3) \<Rightarrow>
                  (case parse_exp s3 of
                     None \<Rightarrow> None
                   | Some (e, s4) \<Rightarrow>
                       Some (JNum (to_double neg (digits_val (ip @ fp)) (e - int (length fp))), s4))))"

text \<open>The value of a hexadecimal digit, and the code unit that four of them name.\<close>

definition hex_val :: "nat \<Rightarrow> nat option" where
  "hex_val c =
     (if of_char CHR ''0'' \<le> c \<and> c \<le> of_char CHR ''9'' then Some (c - of_char CHR ''0'')
      else if of_char CHR ''A'' \<le> c \<and> c \<le> of_char CHR ''F'' then Some (c - of_char CHR ''A'' + 10)
      else if of_char CHR ''a'' \<le> c \<and> c \<le> of_char CHR ''f'' then Some (c - of_char CHR ''a'' + 10)
      else None)"

definition hex4 :: "js_string \<Rightarrow> nat option" where
  "hex4 hs =
     (case map hex_val hs of
        [Some a, Some b, Some c, Some d] \<Rightarrow> Some (4096 * a + 256 * b + 16 * c + d)
      | _ \<Rightarrow> None)"

text \<open>The character that a two-character escape names.\<close>

definition escape :: "nat \<Rightarrow> nat option" where
  "escape e =
     (if e = of_char CHR 0x22 then Some (of_char CHR 0x22)
      else if e = of_char CHR 0x5C then Some (of_char CHR 0x5C)
      else if e = of_char CHR ''/'' then Some (of_char CHR ''/'')
      else if e = of_char CHR ''b'' then Some (of_char CHR 0x08)
      else if e = of_char CHR ''f'' then Some (of_char CHR 0x0C)
      else if e = of_char CHR ''n'' then Some (of_char CHR 0x0A)
      else if e = of_char CHR ''r'' then Some (of_char CHR 0x0D)
      else if e = of_char CHR ''t'' then Some (of_char CHR 0x09)
      else None)"

text \<open>
  The characters of a string after its opening quote, up to the closing quote. A
  control character (below 32) is not allowed unescaped; every other code unit is.
\<close>

fun parse_chars :: "js_string \<Rightarrow> (js_string \<times> js_string) option" where
  "parse_chars [] = None"
| "parse_chars (c # cs) =
     (if c = of_char CHR 0x22 then Some ([], cs)
      else if c = of_char CHR 0x5C then
        (case cs of
           [] \<Rightarrow> None
         | e # es \<Rightarrow>
             if e = of_char CHR ''u'' then
               (case hex4 (take 4 es) of
                  None \<Rightarrow> None
                | Some x \<Rightarrow>
                    (case parse_chars (drop 4 es) of
                       None \<Rightarrow> None
                     | Some (str, r) \<Rightarrow> Some (x # str, r)))
             else
               (case escape e of
                  None \<Rightarrow> None
                | Some x \<Rightarrow>
                    (case parse_chars es of
                       None \<Rightarrow> None
                     | Some (str, r) \<Rightarrow> Some (x # str, r))))
      else if c < 32 then None
      else (case parse_chars cs of None \<Rightarrow> None | Some (str, r) \<Rightarrow> Some (c # str, r)))"

text \<open>\<^verbatim>\<open>s.startsWith(p)\<close>.\<close>

definition starts_with :: "js_string \<Rightarrow> js_string \<Rightarrow> bool" where
  "starts_with s p = (take (length p) s = p)"

text \<open>
  Values, array elements and object members. The first argument bounds the depth of the
  recursion; \<open>JSON_parse\<close> starts it at more than twice the length of the text, and a
  nested value or a further element costs at most two levels and at least one character.
\<close>

fun parse_value :: "nat \<Rightarrow> js_string \<Rightarrow> (json \<times> js_string) option"
  and parse_elements :: "nat \<Rightarrow> js_string \<Rightarrow> (json list \<times> js_string) option"
  and parse_members :: "nat \<Rightarrow> js_string \<Rightarrow> ((js_string \<times> json) list \<times> js_string) option" where
  "parse_value 0 s = None"
| "parse_value (Suc n) s =
     (case skip_ws s of
        [] \<Rightarrow> None
      | c # cs \<Rightarrow>
          if starts_with (c # cs) (units ''null'') then Some (JNull, skip_ws (drop 4 (c # cs)))
          else if starts_with (c # cs) (units ''true'') then Some (JBool True, skip_ws (drop 4 (c # cs)))
          else if starts_with (c # cs) (units ''false'') then Some (JBool False, skip_ws (drop 5 (c # cs)))
          else if c = of_char CHR 0x22 then
            (case parse_chars cs of None \<Rightarrow> None | Some (str, r) \<Rightarrow> Some (JStr str, skip_ws r))
          else if c = of_char CHR ''['' then
            (case skip_ws cs of
               [] \<Rightarrow> None
             | d # ds \<Rightarrow>
                 if d = of_char CHR '']'' then Some (JArr [], skip_ws ds)
                 else (case parse_elements n (d # ds) of
                         None \<Rightarrow> None
                       | Some (vs, r) \<Rightarrow> Some (JArr vs, skip_ws r)))
          else if c = of_char CHR ''{'' then
            (case skip_ws cs of
               [] \<Rightarrow> None
             | d # ds \<Rightarrow>
                 if d = of_char CHR ''}'' then Some (JObj [], skip_ws ds)
                 else (case parse_members n (d # ds) of
                         None \<Rightarrow> None
                       | Some (ms, r) \<Rightarrow> Some (JObj ms, skip_ws r)))
          else (case parse_number (c # cs) of
                  None \<Rightarrow> None
                | Some (v, r) \<Rightarrow> Some (v, skip_ws r)))"
| "parse_elements 0 s = None"
| "parse_elements (Suc n) s =
     (case parse_value n s of
        None \<Rightarrow> None
      | Some (v, r) \<Rightarrow>
          (case r of
             [] \<Rightarrow> None
           | c # cs \<Rightarrow>
               if c = of_char CHR '']'' then Some ([v], cs)
               else if c = of_char CHR '','' then
                 (case parse_elements n cs of None \<Rightarrow> None | Some (vs, r') \<Rightarrow> Some (v # vs, r'))
               else None))"
| "parse_members 0 s = None"
| "parse_members (Suc n) s =
     (case skip_ws s of
        [] \<Rightarrow> None
      | q # qs \<Rightarrow>
          if q \<noteq> of_char CHR 0x22 then None
          else (case parse_chars qs of
                  None \<Rightarrow> None
                | Some (k, r) \<Rightarrow>
                    (case skip_ws r of
                       [] \<Rightarrow> None
                     | c # cs \<Rightarrow>
                         if c \<noteq> of_char CHR '':'' then None
                         else (case parse_value n cs of
                                 None \<Rightarrow> None
                               | Some (v, r') \<Rightarrow>
                                   (case r' of
                                      [] \<Rightarrow> None
                                    | e # es \<Rightarrow>
                                        if e = of_char CHR ''}'' then Some ([(k, v)], es)
                                        else if e = of_char CHR '','' then
                                          (case parse_members n es of
                                             None \<Rightarrow> None
                                           | Some (ms, r'') \<Rightarrow> Some ((k, v) # ms, r''))
                                        else None)))))"

definition JSON_parse :: "js_string \<Rightarrow> json option" where
  "JSON_parse s =
     (case parse_value (2 * length s + 2) s of
        Some (v, []) \<Rightarrow> Some v
      | _ \<Rightarrow> None)"

subsection \<open>Reading \<^verbatim>\<open>data.error\<close> and testing it\<close>

text \<open>
  What the function can throw: the \<^verbatim>\<open>TypeError\<close> of reading a property of
  \<^verbatim>\<open>null\<close>, and \<^verbatim>\<open>new Error(v)\<close>.
\<close>

datatype exn = TypeError | NewError json

text \<open>One invocation of a callback with its argument.\<close>

datatype call = onEvent json | onError json

text \<open>
  \<^verbatim>\<open>data.error\<close> and \<^verbatim>\<open>error.detail\<close> on a value that \<^verbatim>\<open>JSON.parse\<close>
  returned: reading a property of \<^verbatim>\<open>null\<close> throws; an object gives the value of its
  own property (the last one of that name in the text) or \<^verbatim>\<open>undefined\<close>, written
  \<open>None\<close>; numbers, strings, booleans and arrays give \<^verbatim>\<open>undefined\<close> for these two
  names.
\<close>

fun get_own :: "js_string \<Rightarrow> json \<Rightarrow> exn + json option" where
  "get_own k JNull = Inl TypeError"
| "get_own k (JObj ms) = Inr (map_of (rev ms) k)"
| "get_own k v = Inr None"

text \<open>
  JavaScript's truthiness, as \<^verbatim>\<open>if (data.error)\<close> and \<^verbatim>\<open>||\<close> test it: of the
  numbers, the two zeros are falsy.
\<close>

fun truthy :: "json option \<Rightarrow> bool" where
  "truthy None = False"
| "truthy (Some JNull) = False"
| "truthy (Some (JBool b)) = b"
| "truthy (Some (JNum (Finite s m e))) = (m \<noteq> 0)"
| "truthy (Some (JNum (Infinite s))) = True"
| "truthy (Some (JStr s)) = (s \<noteq> [])"
| "truthy (Some (JArr vs)) = True"
| "truthy (Some (JObj ms)) = True"

text \<open>\<^verbatim>\<open>chunk.split('\n')\<close>: never empty; the empty string gives one empty line.\<close>

fun split_nl :: "js_string \<Rightarrow> js_string list" where
  "split_nl [] = [[]]"
| "split_nl (c # cs) =
     (if c = of_char CHR 0x0A then [] # split_nl cs
      else (case split_nl cs of
              l # ls \<Rightarrow> (c # l) # ls
            | [] \<Rightarrow> [[c]]))"

subsection \<open>\<^verbatim>\<open>researchApi.executeResearch\<close>\<close>

text \<open>
  \<^verbatim>\<open>
  for (const line of lines) {
      if (line.startsWith('data: ')) {
          try {
              const data = JSON.parse(line.slice(6));
              if (data.error) {
                  onError?.(data.error);
              } else {
                  onEvent(data as ResearchEvent);
              }
          } catch {
              // Skip invalid JSON lines
          }
      }
  }
  \<close>
  The body of the loop for one line, as the list of callback invocations it makes.
  \<open>has_onError\<close> says whether the optional \<^verbatim>\<open>onError\<close> was passed. The
  \<^verbatim>\<open>try\<close> block covers the property read and the callbacks too: whatever is
  thrown there is dropped.
\<close>

definition handle_line :: "(js_string \<Rightarrow> json option) \<Rightarrow> bool \<Rightarrow> js_string \<Rightarrow> call list" where
  "handle_line parse has_onError line =
     (if starts_with line (units ''data: '') then
        (case parse (drop 6 line) of
           None \<Rightarrow> []
         | Some data \<Rightarrow>
             (case get_own (units ''error'') data of
                Inl _ \<Rightarrow> []
              | Inr e \<Rightarrow>
                  if truthy e then (if has_onError then [onError (the e)] else [])
                  else [onEvent data]))
      else [])"

fun for_lines :: "(js_string \<Rightarrow> json option) \<Rightarrow> bool \<Rightarrow> js_string list \<Rightarrow> call list" where
  "for_lines parse has_onError [] = []"
| "for_lines parse has_onError (line # lines) =
     handle_line parse has_onError line @ for_lines parse has_onError lines"

text \<open>
  \<^verbatim>\<open>
  while (reader) {
      const { done, value } = await reader.read();
      if (done) break;
      const chunk = decoder.decode(value);
      const lines = chunk.split('\n');
      for (const line of lines) { ... }
  }
  \<close>
  The response body is the list of chunks the reader yields before \<^verbatim>\<open>done\<close>;
  \<open>decode\<close> is \<^verbatim>\<open>TextDecoder.decode\<close>.
\<close>

fun read_loop ::
  "(js_string \<Rightarrow> json option) \<Rightarrow> ('b \<Rightarrow> js_string) \<Rightarrow> bool \<Rightarrow> 'b list \<Rightarrow> call list" where
  "read_loop parse decode has_onError [] = []"
| "read_loop parse decode has_onError (v # rest) =
     for_lines parse has_onError (split_nl (decode v))
       @ read_loop parse decode has_onError rest"

text \<open>
  The response as the function uses it: \<^verbatim>\<open>response.ok\<close>, what
  \<^verbatim>\<open>response.json()\<close> resolves to (\<open>None\<close> when it rejects), and the chunks of
  \<^verbatim>\<open>response.body\<close> (\<open>None\<close> when there is no body).
\<close>

record 'b response =
  ok :: bool
  json_body :: "json option"
  body :: "'b list option"

text \<open>
  \<^verbatim>\<open>
  if (!response.ok) {
      const error = await response.json().catch(() => ({ detail: 'Research execution failed' }));
      throw new Error(error.detail || 'Research execution failed');
  }
  \<close>
\<close>

definition request_failure :: "json option \<Rightarrow> exn" where
  "request_failure j =
     (case j of
        None \<Rightarrow> NewError (JStr (units ''Research execution failed''))
      | Some err \<Rightarrow>
          (case get_own (units ''detail'') err of
             Inl e \<Rightarrow> e
           | Inr d \<Rightarrow>
               if truthy d then NewError (the d)
               else NewError (JStr (units ''Research execution failed''))))"

text \<open>
  The whole function after \<^verbatim>\<open>fetch\<close> has returned a response: \<open>Inl\<close> is the
  exception thrown, \<open>Inr\<close> the callback invocations in the order they are made.
\<close>

definition executeResearch ::
  "(js_string \<Rightarrow> json option) \<Rightarrow> ('b \<Rightarrow> js_string) \<Rightarrow> bool \<Rightarrow> 'b response \<Rightarrow> exn + call list" where
  "executeResearch parse decode has_onError response =
     (if \<not> ok response then Inl (request_failure (json_body response))
      else (case body response of
              None \<Rightarrow> Inr []
            | Some chunks \<Rightarrow> Inr (read_loop parse decode has_onError chunks)))"

text \<open>
  The wire form of one event in the API reference (\<^verbatim>\<open>Execute Research (SSE
  Streaming)\<close>): \<^verbatim>\<open>data: \<close>, the JSON text and a blank line.
\<close>

definition sse :: "js_string \<Rightarrow> js_string" where
  "sse payload = units ''data: '' @ payload @ [of_char CHR 0x0A, of_char CHR 0x0A]"

text \<open>
  The text of a response body is what its chunks decode to, one after the other. A
  chunk ends at a line boundary when its text is empty or ends with a newline; when
  every chunk before the last does, no line of the body lies in two chunks.
\<close>

definition body_text :: "('b \<Rightarrow> js_string) \<Rightarrow> 'b list \<Rightarrow> js_string" where
  "body_text decode chunks = concat (map decode chunks)"

definition ends_at_line_boundary :: "js_string \<Rightarrow> bool" where
  "ends_at_line_boundary s \<longleftrightarrow> s = [] \<or> last s = of_char CHR 0x0A"


section \<open>The memory retriever\<close>

text \<open>
  From \<^verbatim>\<open>doc/Memory_System.md\<close>, section 5.1, class \<^verbatim>\<open>MemoryRetriever\<close>.
  One entry of \<^verbatim>\<open>results\<close>: the tag and what it carries. Insights and digests
  carry content, \<^verbatim>\<open>L0_refs\<close> carries file paths.
\<close>

datatype entry = L2_insights string | L1_digest string | L0_refs "string list"

text \<open>
  The methods \<^verbatim>\<open>retrieve_context\<close> calls on \<^verbatim>\<open>self\<close> are not defined in
  the document; they are the fields of the retriever. \<^verbatim>\<open>search_digests\<close> takes the
  query, \<^verbatim>\<open>exclude_agent\<close> and \<^verbatim>\<open>top_k\<close>; \<^verbatim>\<open>search_raw\<close> takes the
  query and \<^verbatim>\<open>limit\<close>. A token count is a natural number.
\<close>

record MemoryRetriever =
  load_insights :: "string list \<Rightarrow> string"
  search_digests :: "string \<Rightarrow> string \<Rightarrow> nat \<Rightarrow> string list"
  search_raw :: "string \<Rightarrow> nat \<Rightarrow> string list"
  count_tokens :: "string \<Rightarrow> nat"
  format_results :: "entry list \<Rightarrow> string"
  extract_sources :: "entry list \<Rightarrow> string list"

record RetrievedContext =
  content :: string
  sources :: "string list"
  token_count :: int

text \<open>
  \<^verbatim>\<open>
  for digest in relevant_digests:
      if token_budget < 1000:
          break
      results.append(("L1_digest", digest))
      token_budget -= self.count_tokens(digest)
  \<close>
\<close>

fun digest_loop :: "(string \<Rightarrow> nat) \<Rightarrow> string list \<Rightarrow> entry list \<times> int \<Rightarrow> entry list \<times> int" where
  "digest_loop cnt [] (results, token_budget) = (results, token_budget)"
| "digest_loop cnt (digest # rest) (results, token_budget) =
     (if token_budget < 1000 then (results, token_budget)
      else digest_loop cnt rest
             (results @ [L1_digest digest], token_budget - int (cnt digest)))"

text \<open>
  \<^verbatim>\<open>
  results = []
  token_budget = max_tokens
  insights = await self.load_insights(["key_findings.md", "open_questions.md"])
  results.append(("L2_insights", insights))
  token_budget -= self.count_tokens(insights)
  relevant_digests = await self.search_digests(query, exclude_agent=agent, top_k=3)
  for digest in relevant_digests: ...
  if token_budget > 500:
      raw_refs = await self.search_raw(query, limit=3)
      results.append(("L0_refs", raw_refs))
  \<close>
  The function up to its \<^verbatim>\<open>return\<close>: the list \<^verbatim>\<open>results\<close> and what is left of
  \<^verbatim>\<open>token_budget\<close>.
\<close>

definition retrieve_results :: "MemoryRetriever \<Rightarrow> string \<Rightarrow> string \<Rightarrow> int \<Rightarrow> entry list \<times> int" where
  "retrieve_results self query agent max_tokens =
     (let insights = load_insights self [''key_findings.md'', ''open_questions.md''];
          results = [L2_insights insights];
          token_budget = max_tokens - int (count_tokens self insights);
          relevant_digests = search_digests self query agent 3;
          (results, token_budget) =
             digest_loop (count_tokens self) relevant_digests (results, token_budget);
          results = (if token_budget > 500
                     then results @ [L0_refs (search_raw self query 3)] else results)
      in (results, token_budget))"

text \<open>
  \<^verbatim>\<open>
  return RetrievedContext(
      content=self.format_results(results),
      sources=self.extract_sources(results),
      token_count=max_tokens - token_budget)
  \<close>
\<close>

definition retrieve_context :: "MemoryRetriever \<Rightarrow> string \<Rightarrow> string \<Rightarrow> int \<Rightarrow> RetrievedContext" where
  "retrieve_context self query agent max_tokens =
     (let (results, token_budget) = retrieve_results self query agent max_tokens
      in \<lparr>content = format_results self results,
          sources = extract_sources self results,
          token_count = max_tokens - token_budget\<rparr>)"

text \<open>Whether an entry is the list of raw file references.\<close>

fun is_L0_refs :: "entry \<Rightarrow> bool" where
  "is_L0_refs (L0_refs paths) = True"
| "is_L0_refs e = False"

text \<open>
  A retriever over three agent digests for evaluating the function: tokens are
  proportional to length (100 per character), the digest search drops the excluded
  agent's digest and keeps the first \<^verbatim>\<open>top_k\<close>.
\<close>

fun entry_text :: "entry \<Rightarrow> string" where
  "entry_text (L2_insights c) = c"
| "entry_text (L1_digest c) = c"
| "entry_text (L0_refs paths) = concat paths"

fun entry_sources :: "entry \<Rightarrow> string list" where
  "entry_sources (L2_insights c) = [''insights'']"
| "entry_sources (L1_digest c) = [''digest'']"
| "entry_sources (L0_refs paths) = paths"

definition example_digests :: "(string \<times> string) list" where
  "example_digests = [(''explorer'', ''eeeeeeeee''), (''critic'', ''ccccccccc''), (''logician'', ''lllll'')]"

definition example_retriever :: MemoryRetriever where
  "example_retriever =
     \<lparr>load_insights = (\<lambda>names. ''k''),
      search_digests = (\<lambda>query exclude_agent top_k.
         take top_k (map snd (filter (\<lambda>(owner, digest). owner \<noteq> exclude_agent) example_digests))),
      search_raw = (\<lambda>query limit. take limit [''raw/explorer/20260115_102345.md'']),
      count_tokens = (\<lambda>c. 100 * length c),
      format_results = (\<lambda>results. concat (map entry_text results)),
      extract_sources = (\<lambda>results. concat (map entry_sources results))\<rparr>"


section \<open>The task graph and its decomposition\<close>

text \<open>
  The task record of \<^verbatim>\<open>web/frontend/lib/api.ts\<close> (interface
  \<^verbatim>\<open>ResearchTaskItem\<close>) and of the \<^verbatim>\<open>ResearchTask\<close> table in
  \<^verbatim>\<open>doc/Agent_Configurations.md\<close>: priorities, statuses, the dependency list, the
  order within a group and the group. Identifiers are numbers here (the position of the
  task in the breakdown); the remaining columns are left out.
\<close>

datatype priority = critical | high | medium | low

datatype task_status = pending | in_progress | completed | failed | skipped

record ResearchTask =
  task_id :: nat
  description :: string
  assigned_agent :: string
  priority :: priority
  status :: task_status
  dependencies :: "nat list"
  execution_order :: nat
  execution_group :: nat

text \<open>
  Modelled from the spec: the Task Graph Builder (Decomposer) is not in the source
  files; only the records it fills are. The specification (section 4.1) has it turn the
  task description and the enabled agent profiles into research tasks, each bound to
  an agent type, a priority and a dependency set. The breakdown itself is the
  Meta-Coordinator's model call; here it is the injected function \<open>breakdown\<close>, whose
  result is a list of proposed subtasks that name their dependencies by position.
\<close>

record subtask =
  sub_description :: string
  sub_agent :: string
  sub_priority :: priority
  sub_dependencies :: "nat list"

text \<open>
  Modelled from the spec: the \<^verbatim>\<open>DecompositionError\<close> of section 7, raised when the
  breakdown "could not produce a valid DAG or referenced a disabled/unknown agent"; the
  latter names the missing agent.
\<close>

datatype DecompositionError = MissingAgent string | NoValidDAG

text \<open>
  Modelled from the spec: the tasks of a breakdown before grouping, all
  \<^verbatim>\<open>pending\<close>, numbered from \<open>i\<close>.
\<close>

fun initial_tasks :: "nat \<Rightarrow> subtask list \<Rightarrow> ResearchTask list" where
  "initial_tasks i [] = []"
| "initial_tasks i (s # ss) =
     \<lparr>task_id = i, description = sub_description s, assigned_agent = sub_agent s,
      priority = sub_priority s, status = pending, dependencies = sub_dependencies s,
      execution_order = 0, execution_group = 0\<rparr> # initial_tasks (Suc i) ss"

text \<open>
  Modelled from the spec: a task can be placed once all its dependencies are placed
  ("group k contains tasks all of whose dependencies lie in groups < k").
\<close>

definition is_ready :: "ResearchTask list \<Rightarrow> ResearchTask \<Rightarrow> bool" where
  "is_ready placed t = list_all (\<lambda>d. d \<in> set (map task_id placed)) (dependencies t)"

text \<open>
  Modelled from the spec: the layering of section 4.1, "group 0 contains all tasks with
  no dependencies; group k contains tasks all of whose dependencies lie in groups < k".
  Round \<open>k\<close> places every remaining task whose dependencies are all placed and gives it
  group \<open>k\<close>. When tasks remain and none can be placed (a cycle, or a dependency that is
  no task of the breakdown), there is no valid layering and the result is \<open>None\<close>.
\<close>

function assign_groups :: "nat \<Rightarrow> ResearchTask list \<Rightarrow> ResearchTask list \<Rightarrow> ResearchTask list option" where
  "assign_groups k remaining placed =
     (if remaining = [] then Some placed
      else if filter (is_ready placed) remaining = [] then None
      else assign_groups (Suc k) (filter (\<lambda>t. \<not> is_ready placed t) remaining)
             (placed @ map (\<lambda>t. t\<lparr>execution_group := k\<rparr>) (filter (is_ready placed) remaining)))"
  by pat_completeness auto
termination
proof (relation "measure (\<lambda>(k, remaining, placed). length remaining)")
  show "wf (measure (\<lambda>(k, remaining, placed). length remaining))"
    by simp
next
  fix k :: nat and remaining placed :: "ResearchTask list"
  assume "filter (is_ready placed) remaining \<noteq> []"
  then have "0 < length (filter (is_ready placed) remaining)"
    by simp
  moreover have "length (filter (is_ready placed) remaining)
      + length (filter (\<lambda>t. \<not> is_ready placed t) remaining) = length remaining"
    by (rule sum_length_filter_compl)
  ultimately have "length (filter (\<lambda>t. \<not> is_ready placed t) remaining) < length remaining"
    by linarith
  then show "((Suc k, filter (\<lambda>t. \<not> is_ready placed t) remaining,
      placed @ map (\<lambda>t. t\<lparr>execution_group := k\<rparr>) (filter (is_ready placed) remaining)),
      (k, remaining, placed)) \<in> measure (\<lambda>(k, remaining, placed). length remaining)"
    by simp
qed

declare assign_groups.simps [simp del]

text \<open>
  Modelled from the spec: "ties in priority do not affect grouping, only intra-group
  scheduling order (\<^verbatim>\<open>execution_order\<close>)". Within a group a task runs before another
  when its priority is higher, or equal and its identifier smaller; the order of a task
  is the number of tasks of its group that run before it.
\<close>

fun priority_rank :: "priority \<Rightarrow> nat" where
  "priority_rank critical = 0"
| "priority_rank high = 1"
| "priority_rank medium = 2"
| "priority_rank low = 3"

definition runs_before :: "ResearchTask \<Rightarrow> ResearchTask \<Rightarrow> bool" where
  "runs_before u t =
     (execution_group u = execution_group t
      \<and> (priority_rank (priority u) < priority_rank (priority t)
         \<or> priority_rank (priority u) = priority_rank (priority t) \<and> task_id u < task_id t))"

definition assign_order :: "ResearchTask list \<Rightarrow> ResearchTask list" where
  "assign_order ts = map (\<lambda>t. t\<lparr>execution_order := length (filter (\<lambda>u. runs_before u t) ts)\<rparr>) ts"

text \<open>
  Modelled from the spec: the Decomposer of section 4.1. It fails with the first agent
  type of the breakdown that is not an enabled profile, fails when the breakdown is
  empty or has no valid layering, and otherwise returns all tasks with their groups
  and orders.
\<close>

definition decompose ::
  "(string \<Rightarrow> AgentProfile list \<Rightarrow> subtask list) \<Rightarrow> string \<Rightarrow> AgentProfile list
     \<Rightarrow> DecompositionError + ResearchTask list" where
  "decompose breakdown task_description enabled =
     (let plan = breakdown task_description enabled in
      case filter (\<lambda>a. a \<notin> set (map agent_type (filter is_enabled enabled))) (map sub_agent plan) of
        a # _ \<Rightarrow> Inl (MissingAgent a)
      | [] \<Rightarrow>
          if plan = [] then Inl NoValidDAG
          else (case assign_groups 0 (initial_tasks 0 plan) [] of
                  None \<Rightarrow> Inl NoValidDAG
                | Some ts \<Rightarrow> Inr (assign_order ts)))"

text \<open>
  The example of the specification's section 8: three enabled agents, and the question
  "Compare Transformer and SSM architectures" broken into a literature search, a
  complexity analysis and a critique that both depend on the search.
\<close>

definition example_team :: "AgentProfile list" where
  "example_team =
     [\<lparr>profile_id = ''a1'', agent_type = ''explorer'', display_name = ''Explorer'',
       is_custom = False, is_enabled = True\<rparr>,
      \<lparr>profile_id = ''a2'', agent_type = ''logician'', display_name = ''Logician'',
       is_custom = False, is_enabled = True\<rparr>,
      \<lparr>profile_id = ''a3'', agent_type = ''critic'', display_name = ''Critic'',
       is_custom = False, is_enabled = True\<rparr>]"

definition example_breakdown :: "string \<Rightarrow> AgentProfile list \<Rightarrow> subtask list" where
  "example_breakdown task_description enabled =
     [\<lparr>sub_description = ''literature search'', sub_agent = ''explorer'',
       sub_priority = high, sub_dependencies = []\<rparr>,
      \<lparr>sub_description = ''complexity analysis'', sub_agent = ''logician'',
       sub_priority = medium, sub_dependencies = [0]\<rparr>,
      \<lparr>sub_description = ''critique'', sub_agent = ''critic'',
       sub_priority = high, sub_dependencies = [0]\<rparr>]"

text \<open>
  The invariant of the layering loop after \<open>k\<close> rounds: placed tasks have groups below
  \<open>k\<close>, every dependency of a placed task is a placed task of a strictly lower group,
  and a placed task without dependencies has group 0.
\<close>

definition layered :: "nat \<Rightarrow> ResearchTask list \<Rightarrow> bool" where
  "layered k placed \<longleftrightarrow>
     (\<forall>t\<in>set placed. execution_group t < k)
   \<and> (\<forall>t\<in>set placed. \<forall>d\<in>set (dependencies t).
         \<exists>u\<in>set placed. task_id u = d \<and> execution_group u < execution_group t)
   \<and> (\<forall>t\<in>set placed. dependencies t = [] \<longrightarrow> execution_group t = 0)"


section \<open>The orchestrator\<close>

text \<open>
  The twelve event types of \<^verbatim>\<open>ResearchEvent\<close> in
  \<^verbatim>\<open>web/frontend/lib/api.ts\<close> (and of the API reference); task and group events
  carry the task identifier or the group number.
\<close>

datatype event =
    session_started
  | decomposition_complete
  | group_started nat
  | task_started nat
  | task_progress nat
  | task_completed nat
  | task_failed nat
  | group_completed nat
  | synthesis_started
  | synthesis_complete
  | session_completed
  | error_event DecompositionError

text \<open>The session statuses of \<^verbatim>\<open>ResearchSession\<close>.\<close>

datatype session_status =
  SessionActive | SessionRunning | SessionCompleted | SessionFailed | SessionArchived

text \<open>
  The fields of \<^verbatim>\<open>AgentExecution\<close> (\<^verbatim>\<open>web/frontend/lib/api.ts\<close>) that record how
  a task ended.
\<close>

record AgentExecution =
  research_task_id :: nat
  output_result :: "string option"
  error_message :: "string option"
  retry_count :: nat

text \<open>
  Modelled from the spec: the Orchestrator (Scheduler) is not in the source files. Its
  two settings in section 4.2 are "a configurable maximum concurrent agent executions"
  and "a fixed retry budget (default 1 retry)".
\<close>

record orchestrator_config =
  max_concurrent :: nat
  retry_budget :: nat

text \<open>
  Modelled from the spec: "a task may be retried up to a fixed retry budget ... using
  the agent's fallback model before being marked failed". The Agent Executor is the
  injected function \<open>run_agent\<close>: for a task identifier and an attempt number (0 on the
  primary model, later ones on the fallback model) it gives the raw output (\<open>Inr\<close>) or
  the error (\<open>Inl\<close>; a timeout is one). \<open>run_attempts\<close> returns the result of the last
  attempt made and the number of retries.
\<close>

primrec run_attempts :: "(nat \<Rightarrow> string + string) \<Rightarrow> nat \<Rightarrow> nat \<Rightarrow> (string + string) \<times> nat" where
  "run_attempts attempt 0 n = (attempt n, n)"
| "run_attempts attempt (Suc budget) n =
     (case attempt n of
        Inr out \<Rightarrow> (Inr out, n)
      | Inl err \<Rightarrow> run_attempts attempt budget (Suc n))"

definition task_outcome ::
  "orchestrator_config \<Rightarrow> (nat \<Rightarrow> nat \<Rightarrow> string + string) \<Rightarrow> nat \<Rightarrow> (string + string) \<times> nat" where
  "task_outcome cfg run_agent i = run_attempts (run_agent i) (retry_budget cfg) 0"

text \<open>
  Modelled from the spec: how a task ends, as its status, as the event emitted
  (\<^verbatim>\<open>task_completed\<close> or \<^verbatim>\<open>task_failed\<close>) and as its execution record.
\<close>

definition final_status ::
  "orchestrator_config \<Rightarrow> (nat \<Rightarrow> nat \<Rightarrow> string + string) \<Rightarrow> nat \<Rightarrow> task_status" where
  "final_status cfg run_agent i =
     (case fst (task_outcome cfg run_agent i) of Inr out \<Rightarrow> completed | Inl err \<Rightarrow> failed)"

definition terminal_event ::
  "orchestrator_config \<Rightarrow> (nat \<Rightarrow> nat \<Rightarrow> string + string) \<Rightarrow> nat \<Rightarrow> event" where
  "terminal_event cfg run_agent i =
     (case fst (task_outcome cfg run_agent i) of
        Inr out \<Rightarrow> task_completed i
      | Inl err \<Rightarrow> task_failed i)"

definition execution_of ::
  "orchestrator_config \<Rightarrow> (nat \<Rightarrow> nat \<Rightarrow> string + string) \<Rightarrow> nat \<Rightarrow> AgentExecution" where
  "execution_of cfg run_agent i =
     (case task_outcome cfg run_agent i of
        (Inr out, retries) \<Rightarrow>
          \<lparr>research_task_id = i, output_result = Some out, error_message = None,
           retry_count = retries\<rparr>
      | (Inl err, retries) \<Rightarrow>
          \<lparr>research_task_id = i, output_result = None, error_message = Some err,
           retry_count = retries\<rparr>)"

text \<open>
  Modelled from the spec: the state of one execution group while it runs: the tasks
  not yet dispatched (in dispatch order), the tasks in flight, the tasks that reached a
  terminal status, their execution records and the events emitted so far.
\<close>

record group_state =
  queue :: "ResearchTask list"
  in_flight :: "ResearchTask list"
  finished :: "ResearchTask list"
  executions :: "AgentExecution list"
  emitted :: "event list"

text \<open>
  Modelled from the spec: "timing across independent concurrent tasks within a group is
  interleaved and not itself ordered". What happens next in a group is a decision:
  dispatch the next queued task, let the \<open>i\<close>-th task in flight report progress, or
  let it finish. A schedule is a list of decisions; every interleaving of a group is
  some schedule.
\<close>

datatype decision = Dispatch | Finish nat | Progress nat

text \<open>
  Modelled from the spec: "bounded parallelism": a task is dispatched only while fewer
  than the maximum are in flight (a maximum of 0 is read as 1).
\<close>

definition can_dispatch :: "nat \<Rightarrow> group_state \<Rightarrow> bool" where
  "can_dispatch limit st \<longleftrightarrow> queue st \<noteq> [] \<and> length (in_flight st) < max 1 limit"

fun allowed :: "nat \<Rightarrow> group_state \<Rightarrow> decision \<Rightarrow> bool" where
  "allowed limit st Dispatch = can_dispatch limit st"
| "allowed limit st (Finish i) = (i < length (in_flight st))"
| "allowed limit st (Progress i) = (i < length (in_flight st))"

text \<open>
  Modelled from the spec: the decision taken is the schedule's next one when it is
  allowed in the state; otherwise, and when the schedule is used up, a queued task is
  dispatched if the bound allows it and the oldest task in flight finishes if not.
\<close>

definition next_decision :: "nat \<Rightarrow> decision list \<Rightarrow> group_state \<Rightarrow> decision" where
  "next_decision limit sched st =
     (case sched of
        d # _ \<Rightarrow>
          if allowed limit st d then d
          else if can_dispatch limit st then Dispatch else Finish 0
      | [] \<Rightarrow> if can_dispatch limit st then Dispatch else Finish 0)"

text \<open>
  Modelled from the spec: the effect of a decision. Dispatching moves the head of the
  queue in flight, sets its status to \<^verbatim>\<open>in_progress\<close> and emits
  \<^verbatim>\<open>task_started\<close>; finishing runs the task's attempts, records the execution, sets
  the terminal status and emits \<^verbatim>\<open>task_completed\<close> or \<^verbatim>\<open>task_failed\<close>. A failed
  task changes nothing else: "it is recorded and the group proceeds with the remaining
  tasks".
\<close>

fun apply_decision ::
  "orchestrator_config \<Rightarrow> (nat \<Rightarrow> nat \<Rightarrow> string + string) \<Rightarrow> decision \<Rightarrow> group_state
     \<Rightarrow> group_state" where
  "apply_decision cfg run_agent Dispatch st =
     (case queue st of
        [] \<Rightarrow> st
      | t # rest \<Rightarrow>
          st\<lparr>queue := rest,
             in_flight := in_flight st @ [t\<lparr>status := in_progress\<rparr>],
             emitted := emitted st @ [task_started (task_id t)]\<rparr>)"
| "apply_decision cfg run_agent (Progress i) st =
     (if i < length (in_flight st)
      then st\<lparr>emitted := emitted st @ [task_progress (task_id (in_flight st ! i))]\<rparr>
      else st)"
| "apply_decision cfg run_agent (Finish i) st =
     (if i < length (in_flight st)
      then st\<lparr>in_flight := take i (in_flight st) @ drop (Suc i) (in_flight st),
              finished := finished st
                @ [(in_flight st ! i)\<lparr>status := final_status cfg run_agent (task_id (in_flight st ! i))\<rparr>],
              executions := executions st @ [execution_of cfg run_agent (task_id (in_flight st ! i))],
              emitted := emitted st @ [terminal_event cfg run_agent (task_id (in_flight st ! i))]\<rparr>
      else st)"

text \<open>The decision taken is allowed while the group has work, and progress comes from the schedule only.\<close>

lemma next_decision_allowed:
  "queue st \<noteq> [] \<or> in_flight st \<noteq> [] \<Longrightarrow> allowed limit st (next_decision limit sched st)"
  by (auto simp: next_decision_def can_dispatch_def split: list.splits)

lemma next_decision_progress:
  "next_decision limit sched st = Progress i \<Longrightarrow> sched \<noteq> []"
  by (auto simp: next_decision_def split: list.splits if_splits)

text \<open>
  Modelled from the spec: "wait for all tasks in the group to reach a terminal state
  before advancing to the next group (a barrier)". The group runs until no task is
  queued or in flight.
\<close>

function run_group ::
  "orchestrator_config \<Rightarrow> (nat \<Rightarrow> nat \<Rightarrow> string + string) \<Rightarrow> decision list \<Rightarrow> group_state
     \<Rightarrow> group_state" where
  "run_group cfg run_agent sched st =
     (if queue st = [] \<and> in_flight st = [] then st
      else run_group cfg run_agent (tl sched)
             (apply_decision cfg run_agent (next_decision (max_concurrent cfg) sched st) st))"
  by pat_completeness auto
termination
proof (relation "measure (\<lambda>(cfg, run_agent, sched, st).
          length sched + 2 * length (queue st) + length (in_flight st))")
  show "wf (measure (\<lambda>(cfg, run_agent, sched, st).
          length sched + 2 * length (queue st) + length (in_flight st)))"
    by simp
next
  fix cfg :: orchestrator_config and run_agent :: "nat \<Rightarrow> nat \<Rightarrow> string + string"
    and sched :: "decision list" and st :: group_state
  assume "\<not> (queue st = [] \<and> in_flight st = [])"
  then have busy: "queue st \<noteq> [] \<or> in_flight st \<noteq> []" by simp
  define d where "d = next_decision (max_concurrent cfg) sched st"
  have ok: "allowed (max_concurrent cfg) st d"
    unfolding d_def by (rule next_decision_allowed[OF busy])
  have "length (tl sched) + 2 * length (queue (apply_decision cfg run_agent d st))
          + length (in_flight (apply_decision cfg run_agent d st))
        < length sched + 2 * length (queue st) + length (in_flight st)"
  proof (cases d)
    case Dispatch
    then obtain t rest where "queue st = t # rest"
      using ok by (cases "queue st") (auto simp: can_dispatch_def)
    then show ?thesis using Dispatch by simp
  next
    case (Finish i)
    then have "i < length (in_flight st)" using ok by simp
    then show ?thesis using Finish by simp
  next
    case (Progress i)
    then have "sched \<noteq> []"
      using next_decision_progress[of "max_concurrent cfg" sched st i] by (simp add: d_def)
    then show ?thesis using Progress by (cases sched) simp_all
  qed
  then show "((cfg, run_agent, tl sched,
       apply_decision cfg run_agent (next_decision (max_concurrent cfg) sched st) st),
      (cfg, run_agent, sched, st))
     \<in> measure (\<lambda>(cfg, run_agent, sched, st).
          length sched + 2 * length (queue st) + length (in_flight st))"
    by (simp add: d_def)
qed

declare run_group.simps [simp del]

text \<open>
  Modelled from the spec: the tasks of group \<open>g\<close> in their \<^verbatim>\<open>execution_order\<close>, the
  run of the group from \<^verbatim>\<open>group_started\<close> on, and the groups of a task graph "in
  increasing order".
\<close>

definition group_tasks :: "ResearchTask list \<Rightarrow> nat \<Rightarrow> ResearchTask list" where
  "group_tasks ts g = sort_key execution_order (filter (\<lambda>t. execution_group t = g) ts)"

definition group_run ::
  "orchestrator_config \<Rightarrow> (nat \<Rightarrow> nat \<Rightarrow> string + string) \<Rightarrow> (nat \<Rightarrow> decision list)
     \<Rightarrow> ResearchTask list \<Rightarrow> nat \<Rightarrow> group_state" where
  "group_run cfg run_agent sched ts g =
     run_group cfg run_agent (sched g)
       \<lparr>queue = group_tasks ts g, in_flight = [], finished = [], executions = [],
        emitted = [group_started g]\<rparr>"

definition group_numbers :: "ResearchTask list \<Rightarrow> nat list" where
  "group_numbers ts = sort (remdups (map execution_group ts))"

text \<open>
  Modelled from the spec: what a session leaves behind: the ordered event stream,
  the tasks with their final statuses, the execution records, the session status and
  the synthesis artifact.
\<close>

record session_result =
  events :: "event list"
  tasks :: "ResearchTask list"
  agent_executions :: "AgentExecution list"
  session_status :: session_status
  synthesis :: "string option"

text \<open>Modelled from the spec: the raw outputs of the executions that succeeded.\<close>

definition successful_outputs :: "AgentExecution list \<Rightarrow> string list" where
  "successful_outputs exs = concat (map (\<lambda>e. case output_result e of Some out \<Rightarrow> [out] | None \<Rightarrow> []) exs)"

text \<open>Modelled from the spec: the events of one group, closed by \<^verbatim>\<open>group_completed\<close>.\<close>

definition segment ::
  "orchestrator_config \<Rightarrow> (nat \<Rightarrow> nat \<Rightarrow> string + string) \<Rightarrow> (nat \<Rightarrow> decision list)
     \<Rightarrow> ResearchTask list \<Rightarrow> nat \<Rightarrow> event list" where
  "segment cfg run_agent sched ts g =
     emitted (group_run cfg run_agent sched ts g) @ [group_completed g]"

text \<open>
  Modelled from the spec: the entry point "execute research for session S" of section
  4.2. The Decomposer is invoked once; a \<^verbatim>\<open>DecompositionError\<close> is fatal to the
  session. Otherwise the groups run one after the other, and "after the last group" the
  Archivist's full summarization (\<open>summarize\<close>, over the raw outputs that exist) and
  the synthesis task (\<open>synthesize\<close>, over the insights) run, both injected model
  calls. Cancellation is not modelled.
\<close>

definition execute_research ::
  "orchestrator_config \<Rightarrow> (string \<Rightarrow> AgentProfile list \<Rightarrow> subtask list)
     \<Rightarrow> (nat \<Rightarrow> nat \<Rightarrow> string + string) \<Rightarrow> (string list \<Rightarrow> string) \<Rightarrow> (string \<Rightarrow> string)
     \<Rightarrow> (nat \<Rightarrow> decision list) \<Rightarrow> string \<Rightarrow> AgentProfile list \<Rightarrow> session_result" where
  "execute_research cfg breakdown run_agent summarize synthesize sched task_description enabled =
     (case decompose breakdown task_description enabled of
        Inl err \<Rightarrow>
          \<lparr>events = [session_started, error_event err], tasks = [], agent_executions = [],
           session_status = SessionFailed, synthesis = None\<rparr>
      | Inr ts \<Rightarrow>
          (let runs = map (group_run cfg run_agent sched ts) (group_numbers ts);
               exs = concat (map executions runs)
           in \<lparr>events = [session_started, decomposition_complete]
                  @ concat (map (segment cfg run_agent sched ts) (group_numbers ts))
                  @ [synthesis_started, synthesis_complete, session_completed],
               tasks = concat (map finished runs),
               agent_executions = exs,
               session_status = SessionCompleted,
               synthesis = Some (synthesize (summarize (successful_outputs exs)))\<rparr>))"

text \<open>
  The invariant of the group loop, for the identifiers \<open>S\<close> of the group's tasks: every
  task is queued, in flight or finished; every event emitted is the group's start or an
  event of one of its tasks; tasks in flight or finished were started; finished tasks
  have their terminal event and status, and the execution records are theirs.
\<close>

definition about_group :: "nat set \<Rightarrow> nat \<Rightarrow> event \<Rightarrow> bool" where
  "about_group S g e \<longleftrightarrow>
     e = group_started g
     \<or> (\<exists>i\<in>S. e = task_started i \<or> e = task_progress i \<or> e = task_completed i \<or> e = task_failed i)"

definition group_inv ::
  "orchestrator_config \<Rightarrow> (nat \<Rightarrow> nat \<Rightarrow> string + string) \<Rightarrow> nat set \<Rightarrow> nat \<Rightarrow> group_state
     \<Rightarrow> bool" where
  "group_inv cfg run_agent S g st \<longleftrightarrow>
     task_id ` (set (queue st) \<union> set (in_flight st) \<union> set (finished st)) = S
   \<and> (\<forall>e\<in>set (emitted st). about_group S g e)
   \<and> (\<forall>t\<in>set (in_flight st) \<union> set (finished st). task_started (task_id t) \<in> set (emitted st))
   \<and> (\<forall>t\<in>set (finished st).
         terminal_event cfg run_agent (task_id t) \<in> set (emitted st)
         \<and> status t = final_status cfg run_agent (task_id t))
   \<and> executions st = map (\<lambda>t. execution_of cfg run_agent (task_id t)) (finished st)"
text \<open>
  A session for evaluating the orchestrator: four tasks in three groups, an agent that
  fails task 1 on every attempt and task 2 on the first attempt only, and a schedule that
  interleaves the two tasks of group 1.
\<close>

definition research_team :: "AgentProfile list" where
  "research_team =
     [\<lparr>profile_id = ''a1'', agent_type = ''explorer'', display_name = ''Explorer'',
       is_custom = False, is_enabled = True\<rparr>,
      \<lparr>profile_id = ''a2'', agent_type = ''logician'', display_name = ''Logician'',
       is_custom = False, is_enabled = True\<rparr>,
      \<lparr>profile_id = ''a3'', agent_type = ''critic'', display_name = ''Critic'',
       is_custom = False, is_enabled = True\<rparr>,
      \<lparr>profile_id = ''a4'', agent_type = ''scribe'', display_name = ''Scribe'',
       is_custom = False, is_enabled = True\<rparr>]"

definition four_task_breakdown :: "string \<Rightarrow> AgentProfile list \<Rightarrow> subtask list" where
  "four_task_breakdown task_description enabled =
     [\<lparr>sub_description = ''literature search'', sub_agent = ''explorer'',
       sub_priority = high, sub_dependencies = []\<rparr>,
      \<lparr>sub_description = ''complexity analysis'', sub_agent = ''logician'',
       sub_priority = medium, sub_dependencies = [0]\<rparr>,
      \<lparr>sub_description = ''critique'', sub_agent = ''critic'',
       sub_priority = high, sub_dependencies = [0]\<rparr>,
      \<lparr>sub_description = ''report'', sub_agent = ''scribe'',
       sub_priority = medium, sub_dependencies = [1, 2]\<rparr>]"

definition flaky_agents :: "nat \<Rightarrow> nat \<Rightarrow> string + string" where
  "flaky_agents i n =
     (if i = 1 then Inl ''timeout''
      else if i = 2 \<and> n = 0 then Inl ''rate limit''
      else if i = 0 then Inr ''papers''
      else if i = 2 then Inr ''objections''
      else Inr ''report'')"

definition interleaved :: "nat \<Rightarrow> decision list" where
  "interleaved g = (if g = 1 then [Dispatch, Dispatch, Finish 1, Progress 0, Finish 0] else [])"

definition default_config :: orchestrator_config where
  "default_config = \<lparr>max_concurrent = 5, retry_budget = 1\<rparr>"

definition example_session :: session_result where
  "example_session =
     execute_research default_config four_task_breakdown flaky_agents concat (\<lambda>insights. ''Synthesis: '' @ insights)
       interleaved ''Compare Transformer and SSM architectures'' research_team"




section \<open>Properties of the memory retriever\<close>

text \<open>
  The digest loop appends a prefix of the digests it is given: the first \<open>n\<close>, each
  appended while at least 1000 tokens were left, and it stops either at the end of the
  list or where fewer than 1000 tokens are left.
\<close>

lemma digest_loop_take:
  "\<exists>n\<le>length ds.
      digest_loop cnt ds (rs, b)
        = (rs @ map L1_digest (take n ds), b - int (sum_list (map cnt (take n ds))))
    \<and> (\<forall>i<n. 1000 \<le> b - int (sum_list (map cnt (take i ds))))
    \<and> (n < length ds \<longrightarrow> b - int (sum_list (map cnt (take n ds))) < 1000)"
proof (induction ds arbitrary: rs b)
  case Nil
  then show ?case by simp
next
  case (Cons d ds)
  show ?case
  proof (cases "b < 1000")
    case True
    then show ?thesis by (intro exI[of _ 0]) simp
  next
    case False
    from Cons.IH[of "rs @ [L1_digest d]" "b - int (cnt d)"]
    obtain n where n: "n \<le> length ds"
      "digest_loop cnt ds (rs @ [L1_digest d], b - int (cnt d))
         = ((rs @ [L1_digest d]) @ map L1_digest (take n ds),
            b - int (cnt d) - int (sum_list (map cnt (take n ds))))"
      "\<forall>i<n. 1000 \<le> b - int (cnt d) - int (sum_list (map cnt (take i ds)))"
      "n < length ds \<longrightarrow> b - int (cnt d) - int (sum_list (map cnt (take n ds))) < 1000"
      by blast
    have "\<forall>i<Suc n. 1000 \<le> b - int (sum_list (map cnt (take i (d # ds))))"
    proof (intro allI impI)
      fix i assume "i < Suc n"
      then show "1000 \<le> b - int (sum_list (map cnt (take i (d # ds))))"
        using n(3) False by (cases i) auto
    qed
    with n False show ?thesis
      by (intro exI[of _ "Suc n"]) auto
  qed
qed

lemma digest_loop_prefix: "prefix rs (fst (digest_loop cnt ds (rs, b)))"
proof (induction ds arbitrary: rs b)
  case Nil
  then show ?case by simp
next
  case (Cons d ds)
  have "prefix rs (rs @ [L1_digest d])" by simp
  also have "prefix (rs @ [L1_digest d]) (fst (digest_loop cnt ds (rs @ [L1_digest d], b - int (cnt d))))"
    by (rule Cons.IH)
  finally show ?case by simp
qed

lemma digest_loop_budget: "snd (digest_loop cnt ds (rs, b)) \<le> b"
proof (induction ds arbitrary: rs b)
  case Nil
  then show ?case by simp
next
  case (Cons d ds)
  have "snd (digest_loop cnt ds (rs @ [L1_digest d], b - int (cnt d))) \<le> b - int (cnt d)"
    by (rule Cons.IH)
  then show ?case by simp
qed

lemma digest_loop_mono:
  "b1 \<le> b2 \<Longrightarrow>
     prefix (fst (digest_loop cnt ds (rs, b1))) (fst (digest_loop cnt ds (rs, b2)))
   \<and> b1 - snd (digest_loop cnt ds (rs, b1)) \<le> b2 - snd (digest_loop cnt ds (rs, b2))"
proof (induction ds arbitrary: rs b1 b2)
  case Nil
  then show ?case by simp
next
  case (Cons d ds)
  show ?case
  proof (cases "b1 < 1000")
    case True
    have "prefix rs (fst (digest_loop cnt (d # ds) (rs, b2)))"
      by (rule digest_loop_prefix)
    moreover have "snd (digest_loop cnt (d # ds) (rs, b2)) \<le> b2"
      by (rule digest_loop_budget)
    ultimately show ?thesis using True by simp
  next
    case False
    with Cons.prems have "\<not> b2 < 1000" by simp
    moreover have "b1 - int (cnt d) \<le> b2 - int (cnt d)" using Cons.prems by simp
    note Cons.IH[OF this, of "rs @ [L1_digest d]"]
    ultimately show ?thesis using False by simp
  qed
qed

lemma digest_loop_no_refs:
  "filter is_L0_refs (fst (digest_loop cnt ds (rs, b))) = filter is_L0_refs rs"
  by (induction ds arbitrary: rs b) auto

text \<open>
  Claim C2, as the code has it. The bundle \<^verbatim>\<open>retrieve_context\<close> builds is, in this
  order: one \<^verbatim>\<open>L2_insights\<close> entry holding everything \<^verbatim>\<open>load_insights\<close>
  returned for \<^verbatim>\<open>key_findings.md\<close> and \<^verbatim>\<open>open_questions.md\<close>, whole, whatever the
  budget; then the first \<open>n\<close> results of the digest search for the query (called with the
  requesting agent as \<^verbatim>\<open>exclude_agent\<close> and \<^verbatim>\<open>top_k = 3\<close>), in the search's
  order, each added while at least 1000 tokens of budget were left; then one
  \<^verbatim>\<open>L0_refs\<close> entry with the paths the raw search returned, exactly when more than
  500 tokens are left after the digests. The content, the sources and the token count
  returned are computed from this list and from what is left of the budget.
\<close>

theorem retrieve_context_bundle_order:
  "\<exists>n\<le>length (search_digests self query agent 3).
     fst (retrieve_results self query agent max_tokens)
       = L2_insights (load_insights self [''key_findings.md'', ''open_questions.md''])
           # map L1_digest (take n (search_digests self query agent 3))
           @ (if 500 < snd (retrieve_results self query agent max_tokens)
              then [L0_refs (search_raw self query 3)] else [])
   \<and> (\<forall>i<n. 1000 \<le> max_tokens
            - int (count_tokens self (load_insights self [''key_findings.md'', ''open_questions.md'']))
            - int (sum_list (map (count_tokens self) (take i (search_digests self query agent 3)))))
   \<and> (n < length (search_digests self query agent 3)
        \<longrightarrow> snd (retrieve_results self query agent max_tokens) < 1000)
   \<and> snd (retrieve_results self query agent max_tokens)
       = max_tokens
           - int (count_tokens self (load_insights self [''key_findings.md'', ''open_questions.md'']))
           - int (sum_list (map (count_tokens self) (take n (search_digests self query agent 3))))
   \<and> retrieve_context self query agent max_tokens
       = \<lparr>content = format_results self (fst (retrieve_results self query agent max_tokens)),
          sources = extract_sources self (fst (retrieve_results self query agent max_tokens)),
          token_count = max_tokens - snd (retrieve_results self query agent max_tokens)\<rparr>"
proof -
  define ins where "ins = load_insights self [''key_findings.md'', ''open_questions.md'']"
  define ds where "ds = search_digests self query agent 3"
  define b where "b = max_tokens - int (count_tokens self ins)"
  obtain n where n: "n \<le> length ds"
    "digest_loop (count_tokens self) ds ([L2_insights ins], b)
       = ([L2_insights ins] @ map L1_digest (take n ds),
          b - int (sum_list (map (count_tokens self) (take n ds))))"
    "\<forall>i<n. 1000 \<le> b - int (sum_list (map (count_tokens self) (take i ds)))"
    "n < length ds \<longrightarrow> b - int (sum_list (map (count_tokens self) (take n ds))) < 1000"
    using digest_loop_take[of ds "count_tokens self" "[L2_insights ins]" b] by blast
  have r: "retrieve_results self query agent max_tokens
      = (L2_insights ins # map L1_digest (take n ds)
           @ (if 500 < b - int (sum_list (map (count_tokens self) (take n ds)))
              then [L0_refs (search_raw self query 3)] else []),
         b - int (sum_list (map (count_tokens self) (take n ds))))"
    using n(2) by (simp add: retrieve_results_def Let_def ins_def ds_def b_def)
  have c: "retrieve_context self query agent max_tokens
       = \<lparr>content = format_results self (fst (retrieve_results self query agent max_tokens)),
          sources = extract_sources self (fst (retrieve_results self query agent max_tokens)),
          token_count = max_tokens - snd (retrieve_results self query agent max_tokens)\<rparr>"
    by (simp add: retrieve_context_def split: prod.splits)
  show ?thesis
    unfolding ins_def[symmetric] ds_def[symmetric]
    using n(1) n(3) n(4) c
    by (intro exI[of _ n]) (simp add: r b_def ins_def[symmetric] ds_def[symmetric])
qed

text \<open>
  The statement at the example retriever with a budget of 2100 tokens: the insights cost
  100, the two digests of the other agents 900 and 500, and 600 tokens are left for the
  raw references.
\<close>

theorem retrieve_context_bundle_order_example:
  "fst (retrieve_results example_retriever ''transformer'' ''explorer'' 2100)
     = [L2_insights ''k'', L1_digest ''ccccccccc'', L1_digest ''lllll'',
        L0_refs [''raw/explorer/20260115_102345.md'']]
   \<and> snd (retrieve_results example_retriever ''transformer'' ''explorer'' 2100) = 600"
  using retrieve_context_bundle_order[of example_retriever "''transformer''" "''explorer''" 2100]
  by (simp add: retrieve_results_def example_retriever_def example_digests_def)

text \<open>
  Claim C2 as the specification states it fails: with a budget of 50 tokens the insights
  alone (100 tokens) exceed the budget, and they are returned whole, not truncated; the
  reported token count is 100.
\<close>

theorem retrieve_context_never_truncates_example:
  "fst (retrieve_results example_retriever ''transformer'' ''explorer'' 50) = [L2_insights ''k'']
   \<and> count_tokens example_retriever ''k'' = 100
   \<and> token_count (retrieve_context example_retriever ''transformer'' ''explorer'' 50) = 100"
  by (simp add: retrieve_context_def retrieve_results_def example_retriever_def example_digests_def)

text \<open>
  Claim C3, as the code has it. For budgets \<open>B1 \<le> B2\<close> and the same retriever, query and
  agent, the insights and digests returned under \<open>B1\<close> are a prefix of those returned
  under \<open>B2\<close>, and the reported token count does not decrease. The list of raw
  file references is left out of the comparison.
\<close>

theorem retrieve_context_memory_monotone:
  "B1 \<le> B2 \<Longrightarrow>
     prefix (filter (\<lambda>e. \<not> is_L0_refs e) (fst (retrieve_results self query agent B1)))
            (filter (\<lambda>e. \<not> is_L0_refs e) (fst (retrieve_results self query agent B2)))
   \<and> token_count (retrieve_context self query agent B1)
       \<le> token_count (retrieve_context self query agent B2)"
proof -
  assume le: "B1 \<le> B2"
  define ins where "ins = load_insights self [''key_findings.md'', ''open_questions.md'']"
  define ds where "ds = search_digests self query agent 3"
  define c where "c = int (count_tokens self ins)"
  define L where "L = (\<lambda>B. digest_loop (count_tokens self) ds ([L2_insights ins], B - c))"
  have "B1 - c \<le> B2 - c" using le by simp
  from digest_loop_mono[OF this, of "count_tokens self" ds "[L2_insights ins]"]
  have m: "prefix (fst (L B1)) (fst (L B2))" "B1 - c - snd (L B1) \<le> B2 - c - snd (L B2)"
    by (simp_all add: L_def)
  have nr: "filter (\<lambda>e. \<not> is_L0_refs e) (fst (L B)) = fst (L B)" for B
  proof -
    have "filter is_L0_refs (fst (L B)) = []"
      unfolding L_def by (simp add: digest_loop_no_refs)
    then show ?thesis by (simp add: filter_empty_conv filter_id_conv)
  qed
  have f: "filter (\<lambda>e. \<not> is_L0_refs e) (fst (retrieve_results self query agent B)) = fst (L B)" for B
  proof -
    obtain rs b where lb: "L B = (rs, b)" by (cases "L B")
    with nr[of B] have "filter (\<lambda>e. \<not> is_L0_refs e) rs = rs" by simp
    moreover from lb have "digest_loop (count_tokens self) ds ([L2_insights ins], B - c) = (rs, b)"
      by (simp add: L_def)
    ultimately show ?thesis using lb
      by (simp add: retrieve_results_def Let_def ins_def[symmetric] ds_def[symmetric] c_def[symmetric])
  qed
  have t: "token_count (retrieve_context self query agent B) = B - snd (L B)" for B
    by (simp add: retrieve_context_def retrieve_results_def Let_def L_def ins_def ds_def c_def
             split: prod.splits)
  show ?thesis using m by (simp add: f t)
qed

text \<open>The statement at the example retriever, for the budgets 800 and 1100.\<close>

theorem retrieve_context_memory_monotone_example:
  "(800::int) \<le> 1100
   \<and> prefix (filter (\<lambda>e. \<not> is_L0_refs e) (fst (retrieve_results example_retriever ''transformer'' ''explorer'' 800)))
            (filter (\<lambda>e. \<not> is_L0_refs e) (fst (retrieve_results example_retriever ''transformer'' ''explorer'' 1100)))
   \<and> token_count (retrieve_context example_retriever ''transformer'' ''explorer'' 800) = 100
   \<and> token_count (retrieve_context example_retriever ''transformer'' ''explorer'' 1100) = 1000"
proof -
  have h: "(800::int) \<le> 1100" by simp
  show ?thesis
    using h retrieve_context_memory_monotone[OF h, of example_retriever "''transformer''" "''explorer''"]
    by (simp add: retrieve_context_def retrieve_results_def example_retriever_def example_digests_def)
qed

text \<open>
  Claim C3 as the specification states it fails at the same two budgets: with 800 tokens
  no digest is added (700 are left after the insights) and the raw references are
  returned (700 > 500); with 1100 tokens one digest of 900 tokens is added, 100 tokens
  are left, and the raw references are not returned. The smaller budget's bundle is
  neither a prefix nor a subset of the larger budget's.
\<close>

theorem retrieve_context_smaller_budget_returns_refs:
  "fst (retrieve_results example_retriever ''transformer'' ''explorer'' 800)
     = [L2_insights ''k'', L0_refs [''raw/explorer/20260115_102345.md'']]
   \<and> fst (retrieve_results example_retriever ''transformer'' ''explorer'' 1100)
     = [L2_insights ''k'', L1_digest ''ccccccccc'']
   \<and> \<not> prefix (fst (retrieve_results example_retriever ''transformer'' ''explorer'' 800))
               (fst (retrieve_results example_retriever ''transformer'' ''explorer'' 1100))
   \<and> \<not> set (fst (retrieve_results example_retriever ''transformer'' ''explorer'' 800))
         \<subseteq> set (fst (retrieve_results example_retriever ''transformer'' ''explorer'' 1100))"
  by (simp add: retrieve_results_def example_retriever_def example_digests_def)

text \<open>
  Claim C8, as the code has it. With a budget of 0 tokens \<^verbatim>\<open>retrieve_context\<close>
  returns exactly the insights entry, whole, whether or not it fits the budget: no digest
  and no raw reference is added, and the token count reported is the insights' own. The
  function has no statement that raises.
\<close>

theorem retrieve_context_zero_budget:
  "fst (retrieve_results self query agent 0)
     = [L2_insights (load_insights self [''key_findings.md'', ''open_questions.md''])]
   \<and> token_count (retrieve_context self query agent 0)
     = int (count_tokens self (load_insights self [''key_findings.md'', ''open_questions.md'']))"
proof -
  have "digest_loop cnt ds (rs, b) = (rs, b)" if "b < 1000" for cnt ds rs and b :: int
    using that by (cases ds) simp_all
  then show ?thesis
    by (simp add: retrieve_context_def retrieve_results_def Let_def)
qed

text \<open>
  Claim C8 as the specification states it fails: the example retriever's insights cost
  100 tokens, which do not fit a budget of 0, and the bundle returned is not empty.
\<close>

theorem retrieve_context_zero_budget_example:
  "\<not> int (count_tokens example_retriever
            (load_insights example_retriever [''key_findings.md'', ''open_questions.md''])) \<le> 0
   \<and> fst (retrieve_results example_retriever ''transformer'' ''explorer'' 0) = [L2_insights ''k'']
   \<and> content (retrieve_context example_retriever ''transformer'' ''explorer'' 0) = ''k''"
  by (simp add: retrieve_context_def retrieve_results_def example_retriever_def example_digests_def)


section \<open>Properties of the profile page\<close>

text \<open>
  Claim C9. Deleting a profile that is not custom is rejected: the error
  \<^verbatim>\<open>Cannot delete default agents\<close> is set, no DELETE request is sent and the rest of
  the page state, the profile list included, is unchanged. A DELETE request is sent
  only for a custom profile, and the profile list changes only when the profile is
  custom, the user confirmed and the server accepted the request.
\<close>

theorem handleDeleteProfile_only_custom:
  "(\<not> is_custom profile \<longrightarrow>
      handleDeleteProfile confirm deleteProfile st profile
        = (st\<lparr>error := Some ''Cannot delete default agents''\<rparr>, []))
   \<and> (snd (handleDeleteProfile confirm deleteProfile st profile) \<noteq> [] \<longrightarrow> is_custom profile)
   \<and> (profiles (fst (handleDeleteProfile confirm deleteProfile st profile)) \<noteq> profiles st
        \<longrightarrow> is_custom profile \<and> confirm (display_name profile)
            \<and> deleteProfile (profile_id profile) = Inr ())"
  by (auto simp: handleDeleteProfile_def split: sum.splits)

text \<open>
  The statement on a page that lists a default and a custom profile: deleting the
  default one sets the error and keeps both; deleting the custom one, confirmed and
  accepted by the server, removes it.
\<close>

theorem handleDeleteProfile_only_custom_example:
  "handleDeleteProfile (\<lambda>name. True) (\<lambda>i. Inr ())
       \<lparr>profiles = [default_explorer, custom_analyst], selectedProfile = None, error = None\<rparr>
       default_explorer
     = (\<lparr>profiles = [default_explorer, custom_analyst], selectedProfile = None,
         error = Some ''Cannot delete default agents''\<rparr>, [])
   \<and> handleDeleteProfile (\<lambda>name. True) (\<lambda>i. Inr ())
       \<lparr>profiles = [default_explorer, custom_analyst], selectedProfile = None, error = None\<rparr>
       custom_analyst
     = (\<lparr>profiles = [default_explorer], selectedProfile = None, error = None\<rparr>, [''p2''])"
proof -
  have d: "\<not> is_custom default_explorer"
    by (simp add: default_explorer_def)
  have c: "is_custom custom_analyst"
    by (simp add: custom_analyst_def)
  show ?thesis
    using d c
      handleDeleteProfile_only_custom[of default_explorer "\<lambda>name. True" "\<lambda>i. Inr ()"
        "\<lparr>profiles = [default_explorer, custom_analyst], selectedProfile = None, error = None\<rparr>"]
      handleDeleteProfile_only_custom[of custom_analyst "\<lambda>name. True" "\<lambda>i. Inr ()"
        "\<lparr>profiles = [default_explorer, custom_analyst], selectedProfile = None, error = None\<rparr>"]
    by (simp add: handleDeleteProfile_def default_explorer_def custom_analyst_def)
qed


section \<open>Properties of the event stream client\<close>

text \<open>The two loops make the calls of their lines, in order.\<close>

lemma for_lines_concat:
  "for_lines parse h ls = concat (map (handle_line parse h) ls)"
  by (induction ls) simp_all

lemma read_loop_concat:
  "read_loop parse decode h chunks
     = concat (map (handle_line parse h) (concat (map (\<lambda>v. split_nl (decode v)) chunks)))"
  by (induction chunks) (simp_all add: for_lines_concat)

text \<open>
  The JSON reader at texts with an escaped code unit and with numerals that are not
  doubles: \<^verbatim>\<open>0.1\<close> is read as the nearest double, a numeral below every positive
  double as zero, which is falsy, and one above every finite double as
  \<^verbatim>\<open>Infinity\<close>.
\<close>

lemma JSON_parse_escaped_unit:
  \<open>JSON_parse (units ''{"message": "'' @ [of_char CHR 0x5C] @ units ''u5f00'' @ [of_char CHR 0x5C]
       @ units ''u59cb"}'')
     = Some (JObj [(units ''message'', JStr [0x5F00, 0x59CB])])\<close>
  by code_simp

lemma JSON_parse_doubles:
  \<open>JSON_parse (units ''0.1'') = Some (JNum (Finite False 0x1999999999999A (- 56)))
   \<and> JSON_parse (units ''1.0'') = JSON_parse (units ''1'')
   \<and> JSON_parse (units ''9007199254740993'') = JSON_parse (units ''9007199254740992'')
   \<and> JSON_parse (units ''1e-400'') = Some (JNum (Finite False 0 (- 1074)))
   \<and> JSON_parse (units ''1e400'') = Some (JNum (Infinite False))
   \<and> handle_line JSON_parse True (units ''data: {"error": 1e-400}'')
       = [onEvent (JObj [(units ''error'', JNum (Finite False 0 (- 1074)))])]\<close>
  by code_simp

text \<open>
  When every chunk before the last ends at a line boundary, the lines of the chunks are
  the lines of the body, and empty lines besides, which make no call.
\<close>

lemma handle_line_empty: "handle_line parse h [] = []"
  by (simp add: handle_line_def starts_with_def units_def)

lemma split_nl_not_empty: "split_nl s \<noteq> []"
  by (induction s) (auto split: list.splits)

lemma split_nl_at_newline:
  "split_nl (a @ of_char CHR 0x0A # b) = split_nl a @ split_nl b"
proof (induction a)
  case Nil
  show ?case by simp
next
  case (Cons c a)
  obtain l ls where "split_nl a = l # ls"
    using split_nl_not_empty[of a] by (cases "split_nl a") auto
  then show ?case using Cons.IH by simp
qed

lemma calls_of_chunk:
  assumes "ends_at_line_boundary a"
  shows "concat (map (handle_line parse h) (split_nl (a @ b)))
       = concat (map (handle_line parse h) (split_nl a))
           @ concat (map (handle_line parse h) (split_nl b))"
proof (cases "a = []")
  case True
  then show ?thesis by (simp add: handle_line_empty)
next
  case False
  then have "a = butlast a @ [of_char CHR 0x0A]"
    using assms unfolding ends_at_line_boundary_def
    by (metis append_butlast_last_id)
  then obtain a' where a: "a = a' @ [of_char CHR 0x0A]" ..
  have "split_nl (a @ b) = split_nl a' @ split_nl b"
    using split_nl_at_newline[of a' b] by (simp add: a)
  moreover have "split_nl a = split_nl a' @ [[]]"
    using split_nl_at_newline[of a' "[]"] by (simp add: a)
  ultimately show ?thesis by (simp add: handle_line_empty)
qed

lemma read_loop_lines:
  "\<forall>v\<in>set (butlast chunks). ends_at_line_boundary (decode v) \<Longrightarrow>
     read_loop parse decode h chunks
       = concat (map (handle_line parse h) (split_nl (body_text decode chunks)))"
proof (induction chunks)
  case Nil
  show ?case by (simp add: body_text_def handle_line_empty)
next
  case (Cons v chunks)
  show ?case
  proof (cases "chunks = []")
    case True
    then show ?thesis by (simp add: body_text_def for_lines_concat)
  next
    case False
    then have v: "ends_at_line_boundary (decode v)"
      and rest: "\<forall>v\<in>set (butlast chunks). ends_at_line_boundary (decode v)"
      using Cons.prems by simp_all
    have "read_loop parse decode h (v # chunks)
        = concat (map (handle_line parse h) (split_nl (decode v)))
            @ concat (map (handle_line parse h) (split_nl (body_text decode chunks)))"
      using Cons.IH[OF rest] by (simp add: for_lines_concat)
    also have "\<dots> = concat (map (handle_line parse h) (split_nl (decode v @ body_text decode chunks)))"
      using v by (simp add: calls_of_chunk)
    finally show ?thesis by (simp add: body_text_def)
  qed
qed

text \<open>
  Claim C10, as the code has it. A line that does not begin with \<^verbatim>\<open>data: \<close> makes
  no call. A line whose payload does not parse makes no call, and neither does a line
  whose payload parses to \<^verbatim>\<open>null\<close>. A payload that parses to any other value with a
  truthy \<^verbatim>\<open>error\<close> field makes one call of \<^verbatim>\<open>onError\<close> with that field (none
  when no \<^verbatim>\<open>onError\<close> was passed) and no call of \<^verbatim>\<open>onEvent\<close>. Every other
  payload that parses makes exactly one call of \<^verbatim>\<open>onEvent\<close> with the parsed value.
  For a response in which every chunk before the last ends at a line boundary, the
  calls are those of the lines of the body, in the order of the stream, and nothing is
  thrown. Nothing is said of a line that lies in two chunks.
\<close>

theorem executeResearch_line_dispatch:
  "(\<not> starts_with line (units ''data: '') \<longrightarrow> handle_line parse has_onError line = [])
   \<and> (starts_with line (units ''data: '') \<and> parse (drop 6 line) = None
        \<longrightarrow> handle_line parse has_onError line = [])
   \<and> (starts_with line (units ''data: '') \<and> parse (drop 6 line) = Some JNull
        \<longrightarrow> handle_line parse has_onError line = [])
   \<and> (starts_with line (units ''data: '') \<and> parse (drop 6 line) = Some data
        \<and> get_own (units ''error'') data = Inr e \<and> truthy e
        \<longrightarrow> handle_line parse True line = [onError (the e)] \<and> handle_line parse False line = [])
   \<and> (starts_with line (units ''data: '') \<and> parse (drop 6 line) = Some data
        \<and> get_own (units ''error'') data = Inr e \<and> \<not> truthy e
        \<longrightarrow> handle_line parse has_onError line = [onEvent data])
   \<and> ((\<forall>v\<in>set (butlast chunks). ends_at_line_boundary (decode v))
        \<longrightarrow> executeResearch parse decode has_onError \<lparr>ok = True, json_body = j, body = Some chunks\<rparr>
             = Inr (concat (map (handle_line parse has_onError)
                      (split_nl (body_text decode chunks)))))"
  by (simp add: handle_line_def executeResearch_def read_loop_lines)

text \<open>
  The statement with the JSON reader at five lines: an event, an error report (with
  and without \<^verbatim>\<open>onError\<close>), a line that is not a data line, a data line whose
  payload is cut short and the payload \<^verbatim>\<open>null\<close>; and at a response of two
  chunks, the first ending at a line boundary, that holds an event, a comment line, an
  error report, the payload \<^verbatim>\<open>null\<close> and a second event, whose line is the last
  of the body and has no newline after it.
\<close>

theorem executeResearch_line_dispatch_example:
  \<open>handle_line JSON_parse True (units ''data: {"type": "task_started", "data": {"task_id": "t1"}}'')
     = [onEvent (JObj [(units ''type'', JStr (units ''task_started'')),
                       (units ''data'', JObj [(units ''task_id'', JStr (units ''t1''))])])]
   \<and> handle_line JSON_parse True (units ''data: {"error": "boom"}'') = [onError (JStr (units ''boom''))]
   \<and> handle_line JSON_parse True (units ''event: ping'') = []
   \<and> handle_line JSON_parse False (units ''data: {"error": "boom"}'') = []
   \<and> handle_line JSON_parse True (units ''data: {"type": "task_st'') = []
   \<and> handle_line JSON_parse True (units ''data: null'') = []
   \<and> executeResearch JSON_parse id True \<lparr>ok = True, json_body = None, body = Some
        [sse (units ''{"type":"session_started"}'') @ units '': ping'' @ [of_char CHR 0x0A],
         sse (units ''{"error":"boom"}'') @ sse (units ''null'')
           @ units ''data: {"type":"session_completed"}'']\<rparr>
       = Inr [onEvent (JObj [(units ''type'', JStr (units ''session_started''))]),
              onError (JStr (units ''boom'')),
              onEvent (JObj [(units ''type'', JStr (units ''session_completed''))])]\<close>
proof -
  let ?ev = \<open>JObj [(units ''type'', JStr (units ''task_started'')),
                   (units ''data'', JObj [(units ''task_id'', JStr (units ''t1''))])]\<close>
  let ?c1 = \<open>sse (units ''{"type":"session_started"}'') @ units '': ping'' @ [of_char CHR 0x0A]\<close>
  let ?c2 = \<open>sse (units ''{"error":"boom"}'') @ sse (units ''null'')
               @ units ''data: {"type":"session_completed"}''\<close>
  have 1: \<open>starts_with (units ''data: {"type": "task_started", "data": {"task_id": "t1"}}'') (units ''data: '')\<close>
    by code_simp
  have 2: \<open>JSON_parse (drop 6 (units ''data: {"type": "task_started", "data": {"task_id": "t1"}}''))
      = Some ?ev\<close>
    by code_simp
  have 3: \<open>get_own (units ''error'') ?ev = Inr None\<close>
    by code_simp
  have 4: \<open>starts_with (units ''data: {"error": "boom"}'') (units ''data: '')\<close>
    by code_simp
  have 5: \<open>JSON_parse (drop 6 (units ''data: {"error": "boom"}''))
      = Some (JObj [(units ''error'', JStr (units ''boom''))])\<close>
    by code_simp
  have 6: \<open>get_own (units ''error'') (JObj [(units ''error'', JStr (units ''boom''))])
      = Inr (Some (JStr (units ''boom'')))\<close>
    by code_simp
  have tr: \<open>truthy (Some (JStr (units ''boom'')))\<close>
    by code_simp
  have 7: \<open>\<not> starts_with (units ''event: ping'') (units ''data: '')\<close>
    by code_simp
  have 8: \<open>starts_with (units ''data: {"type": "task_st'') (units ''data: '')\<close>
    by code_simp
  have 9: \<open>JSON_parse (drop 6 (units ''data: {"type": "task_st'')) = None\<close>
    by code_simp
  have 12: \<open>starts_with (units ''data: null'') (units ''data: '')\<close>
    by code_simp
  have 13: \<open>JSON_parse (drop 6 (units ''data: null'')) = Some JNull\<close>
    by code_simp
  have 10: \<open>\<forall>v\<in>set (butlast [?c1, ?c2]). ends_at_line_boundary (id v)\<close>
    by code_simp
  have 11: \<open>concat (map (handle_line JSON_parse True) (split_nl (body_text id [?c1, ?c2])))
      = [onEvent (JObj [(units ''type'', JStr (units ''session_started''))]),
         onError (JStr (units ''boom'')),
         onEvent (JObj [(units ''type'', JStr (units ''session_completed''))])]\<close>
    by code_simp
  have a: \<open>handle_line JSON_parse True (units ''data: {"type": "task_started", "data": {"task_id": "t1"}}'')
     = [onEvent ?ev]\<close>
    using executeResearch_line_dispatch[where parse = JSON_parse and has_onError = True
            and decode = id and j = None and chunks = "[]"
            and line = \<open>units ''data: {"type": "task_started", "data": {"task_id": "t1"}}''\<close>
            and data = ?ev and e = None] 1 2 3
    by simp
  have b: \<open>handle_line JSON_parse True (units ''data: {"error": "boom"}'') = [onError (JStr (units ''boom''))]
      \<and> handle_line JSON_parse False (units ''data: {"error": "boom"}'') = []\<close>
    using executeResearch_line_dispatch[where parse = JSON_parse and has_onError = True
            and decode = id and j = None and chunks = "[]"
            and line = \<open>units ''data: {"error": "boom"}''\<close>
            and data = \<open>JObj [(units ''error'', JStr (units ''boom''))]\<close>
            and e = \<open>Some (JStr (units ''boom''))\<close>] 4 5 6 tr
    by simp
  have c: \<open>handle_line JSON_parse True (units ''event: ping'') = []\<close>
    using executeResearch_line_dispatch[where parse = JSON_parse and has_onError = True
            and decode = id and j = None and chunks = "[]"
            and line = \<open>units ''event: ping''\<close>] 7
    by simp
  have d: \<open>handle_line JSON_parse True (units ''data: {"type": "task_st'') = []\<close>
    using executeResearch_line_dispatch[where parse = JSON_parse and has_onError = True
            and decode = id and j = None and chunks = "[]"
            and line = \<open>units ''data: {"type": "task_st''\<close>] 8 9
    by simp
  have n: \<open>handle_line JSON_parse True (units ''data: null'') = []\<close>
    using executeResearch_line_dispatch[where parse = JSON_parse and has_onError = True
            and decode = id and j = None and chunks = "[]"
            and line = \<open>units ''data: null''\<close>] 12 13
    by simp
  have e: \<open>executeResearch JSON_parse id True \<lparr>ok = True, json_body = None, body = Some [?c1, ?c2]\<rparr>
      = Inr (concat (map (handle_line JSON_parse True) (split_nl (body_text id [?c1, ?c2]))))\<close>
    using executeResearch_line_dispatch[where parse = JSON_parse and has_onError = True
            and decode = id and j = None and chunks = \<open>[?c1, ?c2]\<close>
            and line = "[]" and data = JNull and e = None] 10
    by blast
  show ?thesis
    using a b c d n unfolding e 11 by simp
qed

text \<open>
  Claim C10 as stated fails for the data line \<^verbatim>\<open>data: null\<close>: the payload parses (to
  \<^verbatim>\<open>null\<close>), it has no truthy \<^verbatim>\<open>error\<close> field, and \<^verbatim>\<open>onEvent\<close> is not
  called: reading \<^verbatim>\<open>data.error\<close> throws inside the \<^verbatim>\<open>try\<close> block. And for an
  error report it fails when the optional \<^verbatim>\<open>onError\<close> was not passed: no callback
  is invoked.
\<close>

theorem executeResearch_null_payload:
  \<open>starts_with (units ''data: null'') (units ''data: '')
   \<and> JSON_parse (drop 6 (units ''data: null'')) = Some JNull
   \<and> handle_line JSON_parse True (units ''data: null'') = []
   \<and> executeResearch JSON_parse id True
        \<lparr>ok = True, json_body = None, body = Some [sse (units ''null'')]\<rparr>
       = Inr []
   \<and> JSON_parse (drop 6 (units ''data: {"error": "boom"}''))
       = Some (JObj [(units ''error'', JStr (units ''boom''))])
   \<and> handle_line JSON_parse False (units ''data: {"error": "boom"}'') = []\<close>
  by code_simp

text \<open>
  Claim C4 at a response whose third event is cut by a chunk boundary. The server sends
  \<^verbatim>\<open>session_started\<close>, \<^verbatim>\<open>task_started\<close> and \<^verbatim>\<open>task_completed\<close> for task 1,
  and \<^verbatim>\<open>session_completed\<close>. Read in two chunks that meet inside the third event, the
  subscriber's \<^verbatim>\<open>onEvent\<close> receives three events: \<^verbatim>\<open>task_started\<close> for task 1 is
  followed by neither \<^verbatim>\<open>task_completed\<close> nor \<^verbatim>\<open>task_failed\<close>. Read in one chunk,
  the same bytes deliver all four.
\<close>

theorem executeResearch_split_chunk_loses_event:
  \<open>executeResearch JSON_parse id True \<lparr>ok = True, json_body = None, body = Some
      [sse (units ''{"type":"session_started"}'')
         @ sse (units ''{"type":"task_started","data":{"task_id":"1"}}'')
         @ units ''data: {"type":"task_comp'',
       units ''leted","data":{"task_id":"1"}}'' @ [of_char CHR 0x0A, of_char CHR 0x0A]
         @ sse (units ''{"type":"session_completed"}'')]\<rparr>
     = Inr [onEvent (JObj [(units ''type'', JStr (units ''session_started''))]),
            onEvent (JObj [(units ''type'', JStr (units ''task_started'')),
                           (units ''data'', JObj [(units ''task_id'', JStr (units ''1''))])]),
            onEvent (JObj [(units ''type'', JStr (units ''session_completed''))])]
   \<and> executeResearch JSON_parse id True \<lparr>ok = True, json_body = None, body = Some
      [sse (units ''{"type":"session_started"}'')
         @ sse (units ''{"type":"task_started","data":{"task_id":"1"}}'')
         @ sse (units ''{"type":"task_completed","data":{"task_id":"1"}}'')
         @ sse (units ''{"type":"session_completed"}'')]\<rparr>
     = Inr [onEvent (JObj [(units ''type'', JStr (units ''session_started''))]),
            onEvent (JObj [(units ''type'', JStr (units ''task_started'')),
                           (units ''data'', JObj [(units ''task_id'', JStr (units ''1''))])]),
            onEvent (JObj [(units ''type'', JStr (units ''task_completed'')),
                           (units ''data'', JObj [(units ''task_id'', JStr (units ''1''))])]),
            onEvent (JObj [(units ''type'', JStr (units ''session_completed''))])]\<close>
  by code_simp

section \<open>Properties of the decomposition\<close>

text \<open>One round of the layering loop keeps the invariant and the identifiers distinct.\<close>

lemma is_ready_no_deps: "dependencies t = [] \<Longrightarrow> is_ready placed t"
  by (simp add: is_ready_def)

lemma is_ready_dep:
  "is_ready placed t \<Longrightarrow> d \<in> set (dependencies t) \<Longrightarrow> \<exists>u\<in>set placed. task_id u = d"
  by (auto simp: is_ready_def list_all_iff)

lemma layered_step:
  assumes lay: "layered k placed"
    and nodeps: "0 < k \<longrightarrow> (\<forall>t\<in>set remaining. dependencies t \<noteq> [])"
  shows "layered (Suc k) (placed @ map (\<lambda>t. t\<lparr>execution_group := k\<rparr>) (filter (is_ready placed) remaining))"
  unfolding layered_def
proof (intro conjI ballI impI)
  let ?new = "map (\<lambda>t. t\<lparr>execution_group := k\<rparr>) (filter (is_ready placed) remaining)"
  fix t assume t: "t \<in> set (placed @ ?new)"
  show "execution_group t < Suc k"
    using t lay by (auto simp: layered_def less_Suc_eq)
  show "execution_group t = 0" if "dependencies t = []"
  proof (cases "t \<in> set placed")
    case True
    then show ?thesis using lay that by (simp add: layered_def)
  next
    case False
    then obtain t0 where t0: "t0 \<in> set remaining" "t = t0\<lparr>execution_group := k\<rparr>"
      using t by auto
    then have "dependencies t0 = []" using that by simp
    then have "k = 0" using nodeps t0(1) by auto
    then show ?thesis using t0 by simp
  qed
  fix d assume d: "d \<in> set (dependencies t)"
  show "\<exists>u\<in>set (placed @ ?new). task_id u = d \<and> execution_group u < execution_group t"
  proof (cases "t \<in> set placed")
    case True
    then show ?thesis using lay d by (fastforce simp: layered_def)
  next
    case False
    then obtain t0 where t0: "t0 \<in> set remaining" "is_ready placed t0" "t = t0\<lparr>execution_group := k\<rparr>"
      using t by auto
    then have "d \<in> set (dependencies t0)" using d by simp
    then obtain u where u: "u \<in> set placed" "task_id u = d"
      using is_ready_dep[OF t0(2)] by blast
    then have "execution_group u < k" using lay by (simp add: layered_def)
    then show ?thesis using u t0(3) by auto
  qed
qed

lemma distinct_ids_step:
  assumes "distinct (map task_id (placed @ remaining))"
  shows "distinct (map task_id ((placed @ map (\<lambda>t. t\<lparr>execution_group := k\<rparr>) (filter P remaining))
            @ filter (\<lambda>t. \<not> P t) remaining))"
proof -
  have ids: "map task_id (map (\<lambda>t. t\<lparr>execution_group := k\<rparr>) (filter P remaining))
      = map task_id (filter P remaining)"
    by simp
  have "distinct (map task_id remaining)" using assms by simp
  then have "distinct (map task_id (filter P remaining) @ map task_id (filter (\<lambda>t. \<not> P t) remaining))"
  proof (induction remaining)
    case Nil
    then show ?case by simp
  next
    case (Cons a as)
    then show ?case by (auto simp: image_iff)
  qed
  moreover have "set (map task_id (filter P remaining)) \<subseteq> set (map task_id remaining)"
    "set (map task_id (filter (\<lambda>t. \<not> P t) remaining)) \<subseteq> set (map task_id remaining)"
    by auto
  ultimately show ?thesis using assms
    unfolding map_append ids by (auto simp: distinct_append)
qed

lemma assign_groups_layered:
  "assign_groups k remaining placed = Some ts \<Longrightarrow> layered k placed
     \<Longrightarrow> (0 < k \<longrightarrow> (\<forall>t\<in>set remaining. dependencies t \<noteq> []))
     \<Longrightarrow> distinct (map task_id (placed @ remaining))
     \<Longrightarrow> (\<exists>k'. layered k' ts) \<and> distinct (map task_id ts)"
proof (induction k remaining placed rule: assign_groups.induct)
  case (1 k remaining placed)
  show ?case
  proof (cases "remaining = []")
    case True
    then have "ts = placed" using "1.prems"(1) by (simp add: assign_groups.simps[of k "[]" placed])
    then show ?thesis using "1.prems" True by auto
  next
    case False
    let ?ready = "filter (is_ready placed) remaining"
    let ?rest = "filter (\<lambda>t. \<not> is_ready placed t) remaining"
    let ?placed = "placed @ map (\<lambda>t. t\<lparr>execution_group := k\<rparr>) ?ready"
    have ne: "?ready \<noteq> []"
      using "1.prems"(1) False by (auto simp: assign_groups.simps[of k remaining placed] split: if_splits)
    have rec: "assign_groups (Suc k) ?rest ?placed = Some ts"
      using "1.prems"(1) False ne by (simp add: assign_groups.simps[of k remaining placed])
    have lay: "layered (Suc k) ?placed"
      using layered_step[OF "1.prems"(2) "1.prems"(3)] .
    have nodeps: "0 < Suc k \<longrightarrow> (\<forall>t\<in>set ?rest. dependencies t \<noteq> [])"
      using is_ready_no_deps by auto
    have dist: "distinct (map task_id (?placed @ ?rest))"
      using distinct_ids_step[OF "1.prems"(4)] .
    show ?thesis
      using "1.IH"[OF False ne rec lay nodeps dist] .
  qed
qed

lemma layered_assign_order: "layered k ts \<Longrightarrow> layered k (assign_order ts)"
  unfolding layered_def assign_order_def
  by (auto simp: image_iff)


lemma task_id_initial_tasks: "map task_id (initial_tasks i plan) = [i..<i + length plan]"
  by (induction plan arbitrary: i) (simp_all add: upt_rec)

lemma task_id_assign_order: "map task_id (assign_order ts) = map task_id ts"
  by (simp add: assign_order_def comp_def)

lemma same_id_same_task:
  "distinct (map task_id ts) \<Longrightarrow> t \<in> set ts \<Longrightarrow> u \<in> set ts \<Longrightarrow> task_id t = task_id u \<Longrightarrow> t = u"
  by (meson distinct_map inj_on_def)

lemma layered_acyclic:
  assumes "layered k ts" and "distinct (map task_id ts)"
  shows "acyclic {(i, d). \<exists>t\<in>set ts. task_id t = i \<and> d \<in> set (dependencies t)}"
proof -
  define grp where "grp i = (case find (\<lambda>t. task_id t = i) ts of Some t \<Rightarrow> execution_group t | None \<Rightarrow> 0)" for i
  have grp: "grp (task_id t) = execution_group t" if "t \<in> set ts" for t
  proof -
    have "find (\<lambda>t'. task_id t' = task_id t) ts \<noteq> None"
      using that by (auto simp: find_None_iff)
    then obtain u where u: "find (\<lambda>t'. task_id t' = task_id t) ts = Some u"
      by blast
    then have "u \<in> set ts" "task_id u = task_id t"
      by (auto simp: find_Some_iff)
    then have "u = t" using same_id_same_task[OF assms(2)] that by blast
    then show ?thesis using u by (simp add: grp_def)
  qed
  have lt: "grp d < grp (task_id t)" if t: "t \<in> set ts" "d \<in> set (dependencies t)" for t d
  proof -
    obtain u where u: "u \<in> set ts" "task_id u = d" "execution_group u < execution_group t"
      using assms(1) t unfolding layered_def by blast
    then show ?thesis
      using grp[OF t(1)] grp[OF u(1)] by simp
  qed
  have "{(i, d). \<exists>t\<in>set ts. task_id t = i \<and> d \<in> set (dependencies t)}
      \<subseteq> (inv_image less_than grp)\<inverse>"
    using lt by auto
  moreover have "acyclic ((inv_image less_than grp)\<inverse>)"
    using wf_acyclic[OF wf_inv_image[OF wf_less_than], of grp] by (simp only: acyclic_converse)
  ultimately show ?thesis
    by (rule acyclic_subset[rotated])
qed

text \<open>
  A task graph the Decomposer returns is layered, and its identifiers are distinct.
\<close>

lemma decompose_layered:
  assumes "decompose breakdown task_description enabled = Inr ts"
  shows "(\<exists>k. layered k ts) \<and> distinct (map task_id ts)"
proof -
  define plan where "plan = breakdown task_description enabled"
  define missing where
    "missing = filter (\<lambda>a. a \<notin> set (map agent_type (filter is_enabled enabled))) (map sub_agent plan)"
  have dec: "decompose breakdown task_description enabled =
      (case missing of
         a # _ \<Rightarrow> Inl (MissingAgent a)
       | [] \<Rightarrow>
           if plan = [] then Inl NoValidDAG
           else (case assign_groups 0 (initial_tasks 0 plan) [] of
                   None \<Rightarrow> Inl NoValidDAG
                 | Some ts \<Rightarrow> Inr (assign_order ts)))"
    unfolding decompose_def Let_def missing_def plan_def by (rule refl)
  have "missing = []"
    using assms dec by (cases missing) simp_all
  moreover have "plan \<noteq> []"
    using assms dec \<open>missing = []\<close> by (cases "plan = []") simp_all
  ultimately have "(case assign_groups 0 (initial_tasks 0 plan) [] of
                   None \<Rightarrow> Inl NoValidDAG
                 | Some ts \<Rightarrow> Inr (assign_order ts)) = Inr ts"
    using assms dec by simp
  then obtain ts0 where ts0: "assign_groups 0 (initial_tasks 0 plan) [] = Some ts0" "ts = assign_order ts0"
    by (cases "assign_groups 0 (initial_tasks 0 plan) []") auto
  have "layered 0 []" by (simp add: layered_def)
  moreover have "distinct (map task_id ([] @ initial_tasks 0 plan))"
    by (simp add: task_id_initial_tasks)
  ultimately obtain k where k: "layered k ts0" and d0: "distinct (map task_id ts0)"
    using assign_groups_layered[OF ts0(1)] by auto
  have "layered k ts" using k ts0(2) by (simp add: layered_assign_order)
  moreover have "distinct (map task_id ts)" using d0 ts0(2) by (simp add: task_id_assign_order)
  ultimately show ?thesis by (intro conjI exI)
qed

text \<open>
  Claim C1, for the Decomposer modelled from the specification. Whenever it returns a
  task graph, the dependency relation over the task identifiers is acyclic; every
  dependency of a task is a task of the graph in a strictly lower execution group, so a
  task's group is greater than the groups of all its dependencies; a task without
  dependencies is in group 0; no task depends on a task of its own group; and the
  identifiers are distinct.
\<close>

theorem decompose_groups:
  assumes "decompose breakdown task_description enabled = Inr ts"
  shows "acyclic {(i, d). \<exists>t\<in>set ts. task_id t = i \<and> d \<in> set (dependencies t)}
    \<and> (\<forall>t\<in>set ts. \<forall>d\<in>set (dependencies t).
          \<exists>u\<in>set ts. task_id u = d \<and> execution_group u < execution_group t)
    \<and> (\<forall>t\<in>set ts. dependencies t = [] \<longrightarrow> execution_group t = 0)
    \<and> (\<forall>t\<in>set ts. \<forall>u\<in>set ts.
          execution_group t = execution_group u \<longrightarrow> task_id u \<notin> set (dependencies t))
    \<and> distinct (map task_id ts)"
proof -
  obtain k where lay: "layered k ts" and dist: "distinct (map task_id ts)"
    using decompose_layered[OF assms] by (elim conjE exE)
  from lay have parts:
    "(\<forall>t\<in>set ts. execution_group t < k)
     \<and> (\<forall>t\<in>set ts. \<forall>d\<in>set (dependencies t).
           \<exists>u\<in>set ts. task_id u = d \<and> execution_group u < execution_group t)
     \<and> (\<forall>t\<in>set ts. dependencies t = [] \<longrightarrow> execution_group t = 0)"
    unfolding layered_def .
  note below = conjunct1[OF conjunct2[OF parts]]
  have same: "task_id u \<notin> set (dependencies t)"
    if t: "t \<in> set ts" and u: "u \<in> set ts" and eq: "execution_group t = execution_group u" for t u
  proof
    assume dep: "task_id u \<in> set (dependencies t)"
    have "\<exists>u'\<in>set ts. task_id u' = task_id u \<and> execution_group u' < execution_group t"
      by (rule bspec[OF bspec[OF below t] dep])
    then obtain u' where u': "u' \<in> set ts" "task_id u' = task_id u"
        "execution_group u' < execution_group t"
      by (elim bexE conjE)
    have "u' = u"
      by (rule same_id_same_task[OF dist u'(1) u u'(2)])
    then show False using u'(3) eq by simp
  qed
  show ?thesis
  proof (intro conjI)
    show "acyclic {(i, d). \<exists>t\<in>set ts. task_id t = i \<and> d \<in> set (dependencies t)}"
      by (rule layered_acyclic[OF lay dist])
    show "\<forall>t\<in>set ts. \<forall>d\<in>set (dependencies t).
           \<exists>u\<in>set ts. task_id u = d \<and> execution_group u < execution_group t"
      by (rule below)
    show "\<forall>t\<in>set ts. dependencies t = [] \<longrightarrow> execution_group t = 0"
      by (rule conjunct2[OF conjunct2[OF parts]])
    show "\<forall>t\<in>set ts. \<forall>u\<in>set ts.
          execution_group t = execution_group u \<longrightarrow> task_id u \<notin> set (dependencies t)"
      using same by (intro ballI impI)
    show "distinct (map task_id ts)"
      by (rule dist)
  qed
qed

text \<open>
  The statement at the example of the specification: the literature search is group 0,
  the complexity analysis and the critique are group 1.
\<close>

theorem decompose_groups_example:
  "decompose example_breakdown ''Compare Transformer and SSM architectures'' example_team
     = Inr [\<lparr>task_id = 0, description = ''literature search'', assigned_agent = ''explorer'',
             priority = high, status = pending, dependencies = [],
             execution_order = 0, execution_group = 0\<rparr>,
            \<lparr>task_id = 1, description = ''complexity analysis'', assigned_agent = ''logician'',
             priority = medium, status = pending, dependencies = [0],
             execution_order = 1, execution_group = 1\<rparr>,
            \<lparr>task_id = 2, description = ''critique'', assigned_agent = ''critic'',
             priority = high, status = pending, dependencies = [0],
             execution_order = 0, execution_group = 1\<rparr>]
   \<and> acyclic {(i, d). \<exists>t\<in>set
           [\<lparr>task_id = 0, description = ''literature search'', assigned_agent = ''explorer'',
             priority = high, status = pending, dependencies = [],
             execution_order = 0, execution_group = 0\<rparr>,
            \<lparr>task_id = 1, description = ''complexity analysis'', assigned_agent = ''logician'',
             priority = medium, status = pending, dependencies = [0],
             execution_order = 1, execution_group = 1\<rparr>,
            \<lparr>task_id = 2, description = ''critique'', assigned_agent = ''critic'',
             priority = high, status = pending, dependencies = [0],
             execution_order = 0, execution_group = 1\<rparr>].
           task_id t = i \<and> d \<in> set (dependencies t)}"
proof -
  have e: "decompose example_breakdown ''Compare Transformer and SSM architectures'' example_team
     = Inr [\<lparr>task_id = 0, description = ''literature search'', assigned_agent = ''explorer'',
             priority = high, status = pending, dependencies = [],
             execution_order = 0, execution_group = 0\<rparr>,
            \<lparr>task_id = 1, description = ''complexity analysis'', assigned_agent = ''logician'',
             priority = medium, status = pending, dependencies = [0],
             execution_order = 1, execution_group = 1\<rparr>,
            \<lparr>task_id = 2, description = ''critique'', assigned_agent = ''critic'',
             priority = high, status = pending, dependencies = [0],
             execution_order = 0, execution_group = 1\<rparr>]"
    by code_simp
  show ?thesis
    by (rule conjI[OF e conjunct1[OF decompose_groups[OF e]]])
qed


section \<open>Properties of the orchestrator\<close>

text \<open>Each decision keeps the invariant of the group loop, and so does the loop.\<close>

lemma terminal_event_cases:
  "terminal_event cfg run_agent i = task_completed i \<or> terminal_event cfg run_agent i = task_failed i"
  by (simp add: terminal_event_def split: sum.splits)

lemma set_remove_nth:
  assumes "i < length xs"
  shows "set xs = insert (xs ! i) (set (take i xs @ drop (Suc i) xs))"
proof -
  have "xs = take i xs @ xs ! i # drop (Suc i) xs"
    using assms by (rule id_take_nth_drop)
  then have "set xs = set (take i xs @ xs ! i # drop (Suc i) xs)"
    by simp
  then show ?thesis by simp
qed

lemma group_inv_dispatch:
  assumes inv: "group_inv cfg run_agent S g st" and q: "queue st = t # rest"
  shows "group_inv cfg run_agent S g
           (st\<lparr>queue := rest, in_flight := in_flight st @ [t\<lparr>status := in_progress\<rparr>],
               emitted := emitted st @ [task_started (task_id t)]\<rparr>)"
proof -
  have S: "task_id ` (set (queue st) \<union> set (in_flight st) \<union> set (finished st)) = S"
    and E: "\<forall>e\<in>set (emitted st). about_group S g e"
    and St: "\<forall>t\<in>set (in_flight st) \<union> set (finished st). task_started (task_id t) \<in> set (emitted st)"
    and T: "\<forall>t\<in>set (finished st).
         terminal_event cfg run_agent (task_id t) \<in> set (emitted st)
         \<and> status t = final_status cfg run_agent (task_id t)"
    and X: "executions st = map (\<lambda>t. execution_of cfg run_agent (task_id t)) (finished st)"
    using inv unfolding group_inv_def by blast+
  have tS: "task_id t \<in> S" using S q by auto
  have "about_group S g (task_started (task_id t))"
    using tS by (auto simp: about_group_def)
  then show ?thesis
    unfolding group_inv_def using S E St T X q by (auto simp: image_Un)
qed

lemma group_inv_progress:
  assumes inv: "group_inv cfg run_agent S g st" and i: "i < length (in_flight st)"
  shows "group_inv cfg run_agent S g
           (st\<lparr>emitted := emitted st @ [task_progress (task_id (in_flight st ! i))]\<rparr>)"
proof -
  have S: "task_id ` (set (queue st) \<union> set (in_flight st) \<union> set (finished st)) = S"
    using inv unfolding group_inv_def by blast
  have "in_flight st ! i \<in> set (in_flight st)" using i by simp
  then have "task_id (in_flight st ! i) \<in> S" using S by blast
  then have "about_group S g (task_progress (task_id (in_flight st ! i)))"
    by (auto simp: about_group_def)
  then show ?thesis
    using inv unfolding group_inv_def by auto
qed

lemma group_inv_finish:
  assumes inv: "group_inv cfg run_agent S g st" and i: "i < length (in_flight st)"
  shows "group_inv cfg run_agent S g
           (st\<lparr>in_flight := take i (in_flight st) @ drop (Suc i) (in_flight st),
               finished := finished st
                 @ [(in_flight st ! i)\<lparr>status := final_status cfg run_agent (task_id (in_flight st ! i))\<rparr>],
               executions := executions st @ [execution_of cfg run_agent (task_id (in_flight st ! i))],
               emitted := emitted st @ [terminal_event cfg run_agent (task_id (in_flight st ! i))]\<rparr>)"
proof -
  define t where "t = in_flight st ! i"
  define fl where "fl = take i (in_flight st) @ drop (Suc i) (in_flight st)"
  have S: "task_id ` (set (queue st) \<union> set (in_flight st) \<union> set (finished st)) = S"
    and E: "\<forall>e\<in>set (emitted st). about_group S g e"
    and St: "\<forall>t\<in>set (in_flight st) \<union> set (finished st). task_started (task_id t) \<in> set (emitted st)"
    and T: "\<forall>t\<in>set (finished st).
         terminal_event cfg run_agent (task_id t) \<in> set (emitted st)
         \<and> status t = final_status cfg run_agent (task_id t)"
    and X: "executions st = map (\<lambda>t. execution_of cfg run_agent (task_id t)) (finished st)"
    using inv unfolding group_inv_def by blast+
  have fl: "set (in_flight st) = insert t (set fl)"
    unfolding t_def fl_def using i by (rule set_remove_nth)
  have tS: "task_id t \<in> S" using S fl by auto
  have ev: "about_group S g (terminal_event cfg run_agent (task_id t))"
    using tS terminal_event_cases[of cfg run_agent "task_id t"] by (auto simp: about_group_def)
  have ids: "task_id ` (set (queue st) \<union> set fl
        \<union> set (finished st @ [t\<lparr>status := final_status cfg run_agent (task_id t)\<rparr>])) = S"
    using S fl by (auto simp: image_Un)
  have started: "task_started (task_id t) \<in> set (emitted st)"
    using St fl by auto
  show ?thesis
    unfolding group_inv_def t_def[symmetric] fl_def[symmetric]
    using ids E ev St started T X fl by auto
qed

lemma group_inv_step:
  assumes "group_inv cfg run_agent S g st" and "allowed limit st d"
  shows "group_inv cfg run_agent S g (apply_decision cfg run_agent d st)"
proof (cases d)
  case Dispatch
  then obtain t rest where q: "queue st = t # rest"
    using assms(2) by (cases "queue st") (auto simp: can_dispatch_def)
  show ?thesis
    using group_inv_dispatch[OF assms(1) q] Dispatch q by simp
next
  case (Finish i)
  then have "i < length (in_flight st)" using assms(2) by simp
  then show ?thesis
    using group_inv_finish[OF assms(1)] Finish by simp
next
  case (Progress i)
  then have "i < length (in_flight st)" using assms(2) by simp
  then show ?thesis
    using group_inv_progress[OF assms(1)] Progress by simp
qed

lemma run_group_inv:
  "group_inv cfg run_agent S g st \<Longrightarrow>
     group_inv cfg run_agent S g (run_group cfg run_agent sched st)
   \<and> queue (run_group cfg run_agent sched st) = []
   \<and> in_flight (run_group cfg run_agent sched st) = []"
proof (induction cfg run_agent sched st rule: run_group.induct)
  case (1 cfg run_agent sched st)
  show ?case
  proof (cases "queue st = [] \<and> in_flight st = []")
    case True
    then show ?thesis using "1.prems" by (simp add: run_group.simps[of cfg run_agent sched st])
  next
    case False
    then have busy: "queue st \<noteq> [] \<or> in_flight st \<noteq> []" by simp
    have "group_inv cfg run_agent S g
            (apply_decision cfg run_agent (next_decision (max_concurrent cfg) sched st) st)"
      by (rule group_inv_step[OF "1.prems" next_decision_allowed[OF busy]])
    moreover have "run_group cfg run_agent sched st
        = run_group cfg run_agent (tl sched)
            (apply_decision cfg run_agent (next_decision (max_concurrent cfg) sched st) st)"
      using False by (subst run_group.simps) auto
    ultimately show ?thesis
      using "1.IH"[OF False] by simp
  qed
qed


lemma set_group_tasks: "set (group_tasks ts g) = {t \<in> set ts. execution_group t = g}"
  by (auto simp: group_tasks_def)

lemma group_run_inv:
  "group_inv cfg run_agent (task_id ` {t \<in> set ts. execution_group t = g}) g
     (group_run cfg run_agent sched ts g)
   \<and> queue (group_run cfg run_agent sched ts g) = []
   \<and> in_flight (group_run cfg run_agent sched ts g) = []"
proof -
  have "group_inv cfg run_agent (task_id ` {t \<in> set ts. execution_group t = g}) g
          \<lparr>queue = group_tasks ts g, in_flight = [], finished = [], executions = [],
           emitted = [group_started g]\<rparr>"
    by (simp add: group_inv_def set_group_tasks about_group_def)
  then show ?thesis
    unfolding group_run_def by (rule run_group_inv)
qed

lemma group_run_finished_ids:
  "task_id ` set (finished (group_run cfg run_agent sched ts g))
     = task_id ` {t \<in> set ts. execution_group t = g}"
proof -
  let ?st = "group_run cfg run_agent sched ts g"
  have a: "task_id ` (set (queue ?st) \<union> set (in_flight ?st) \<union> set (finished ?st))
      = task_id ` {t \<in> set ts. execution_group t = g}"
    and q: "queue ?st = []" and f: "in_flight ?st = []"
  proof -
    note inv = group_run_inv[of cfg run_agent ts g sched]
    show "queue ?st = []" by (rule conjunct1[OF conjunct2[OF inv]])
    show "in_flight ?st = []" by (rule conjunct2[OF conjunct2[OF inv]])
    show "task_id ` (set (queue ?st) \<union> set (in_flight ?st) \<union> set (finished ?st))
      = task_id ` {t \<in> set ts. execution_group t = g}"
      using conjunct1[OF inv] unfolding group_inv_def by (rule conjunct1)
  qed
  show ?thesis using a unfolding q f by simp
qed

lemma group_run_events_about:
  assumes "e \<in> set (emitted (group_run cfg run_agent sched ts g))"
  shows "about_group (task_id ` {t \<in> set ts. execution_group t = g}) g e"
  using group_run_inv[of cfg run_agent ts g sched] assms by (simp add: group_inv_def)

lemma group_run_task_events:
  assumes "t \<in> set ts" and "execution_group t = g"
  shows "task_started (task_id t) \<in> set (emitted (group_run cfg run_agent sched ts g))
       \<and> terminal_event cfg run_agent (task_id t) \<in> set (emitted (group_run cfg run_agent sched ts g))"
proof -
  have "task_id t \<in> task_id ` set (finished (group_run cfg run_agent sched ts g))"
    unfolding group_run_finished_ids using assms by blast
  then obtain u where u: "u \<in> set (finished (group_run cfg run_agent sched ts g))"
      "task_id u = task_id t"
    by auto
  have "task_started (task_id u) \<in> set (emitted (group_run cfg run_agent sched ts g))
      \<and> terminal_event cfg run_agent (task_id u) \<in> set (emitted (group_run cfg run_agent sched ts g))"
    using group_run_inv[of cfg run_agent ts g sched] u(1) by (simp add: group_inv_def)
  then show ?thesis using u(2) by simp
qed

lemma group_run_started_only:
  assumes dist: "distinct (map task_id ts)" and t: "t \<in> set ts"
    and ev: "task_started (task_id t) \<in> set (segment cfg run_agent sched ts g)"
  shows "execution_group t = g"
proof -
  have "task_started (task_id t) \<in> set (emitted (group_run cfg run_agent sched ts g))"
    using ev by (simp add: segment_def)
  then have "about_group (task_id ` {t \<in> set ts. execution_group t = g}) g (task_started (task_id t))"
    by (rule group_run_events_about)
  then have "task_id t \<in> task_id ` {t \<in> set ts. execution_group t = g}"
    by (auto simp: about_group_def)
  then obtain u where u: "u \<in> set ts" "execution_group u = g" "task_id u = task_id t"
    by auto
  have "u = t"
    by (rule same_id_same_task[OF dist u(1) t u(3)])
  then show ?thesis using u(2) by simp
qed

lemma barrier_segments:
  fixes seg :: "nat \<Rightarrow> event list"
  assumes only: "\<And>g t. t \<in> set ts \<Longrightarrow> task_started (task_id t) \<in> set (seg g) \<Longrightarrow> execution_group t = g"
    and every: "\<And>t. t \<in> set ts \<Longrightarrow> fin t \<in> set (seg (execution_group t))"
    and t: "t \<in> set ts" and t': "t' \<in> set ts"
    and lt: "execution_group t < execution_group t'"
  shows "sorted_wrt (<) gs \<Longrightarrow> execution_group t \<in> set gs
     \<Longrightarrow> prefix p (concat (map seg gs)) \<Longrightarrow> task_started (task_id t') \<in> set p
     \<Longrightarrow> fin t \<in> set p"
proof (induction gs arbitrary: p)
  case Nil
  then show ?case by simp
next
  case (Cons g gs)
  have later: "\<forall>h\<in>set gs. g < h" using Cons.prems(1) by simp
  have not_here: "task_started (task_id t') \<notin> set (seg g)"
  proof
    assume "task_started (task_id t') \<in> set (seg g)"
    then have "execution_group t' = g" by (rule only[OF t'])
    then have "execution_group t < g" using lt by simp
    moreover have "g \<le> execution_group t"
      using Cons.prems(2) later by (auto simp: less_imp_le)
    ultimately show False by simp
  qed
  from Cons.prems(3) have "prefix p (seg g @ concat (map seg gs))" by simp
  then consider (short) "prefix p (seg g)"
    | (long) p' where "p = seg g @ p'" "prefix p' (concat (map seg gs))"
    unfolding prefix_append by blast
  then show ?case
  proof cases
    case short
    then have "set p \<subseteq> set (seg g)" by (rule set_mono_prefix)
    then show ?thesis using Cons.prems(4) not_here by blast
  next
    case long
    have started: "task_started (task_id t') \<in> set p'"
      using Cons.prems(4) not_here long(1) by simp
    show ?thesis
    proof (cases "execution_group t = g")
      case True
      then show ?thesis using every[OF t] long(1) by simp
    next
      case False
      then have "execution_group t \<in> set gs" using Cons.prems(2) by simp
      moreover have "sorted_wrt (<) gs" using Cons.prems(1) by simp
      ultimately have "fin t \<in> set p'"
        using Cons.IH long(2) started by blast
      then show ?thesis using long(1) by simp
    qed
  qed
qed

lemma sorted_group_numbers: "sorted_wrt (<) (group_numbers ts)"
  unfolding group_numbers_def
  by (simp add: strict_sorted_iff)

lemma set_group_numbers: "set (group_numbers ts) = execution_group ` set ts"
  by (simp add: group_numbers_def)


lemma events_execute_research:
  assumes "decompose breakdown task_description enabled = Inr ts"
  shows "events (execute_research cfg breakdown run_agent summarize synthesize sched
                   task_description enabled)
       = [session_started, decomposition_complete]
           @ concat (map (segment cfg run_agent sched ts) (group_numbers ts))
           @ [synthesis_started, synthesis_complete, session_completed]"
  using assms by (simp add: execute_research_def Let_def)

lemma segment_in_events:
  assumes "g \<in> set (group_numbers ts)" and "e \<in> set (segment cfg run_agent sched ts g)"
  shows "e \<in> set (concat (map (segment cfg run_agent sched ts) (group_numbers ts)))"
  using assms by auto

lemma terminal_in_segment:
  assumes "t \<in> set ts"
  shows "terminal_event cfg run_agent (task_id t)
           \<in> set (segment cfg run_agent sched ts (execution_group t))"
  using group_run_task_events[OF assms refl, of cfg run_agent sched] by (simp add: segment_def)


text \<open>
  Claim C5, for the Orchestrator modelled from the specification. A task's status
  leaves \<^verbatim>\<open>pending\<close> at its \<^verbatim>\<open>task_started\<close> event and becomes terminal at its
  \<^verbatim>\<open>task_completed\<close> or \<^verbatim>\<open>task_failed\<close> event. At every point of the event
  stream (every prefix \<open>p\<close>), if a task \<open>t'\<close> has been dispatched, then every task \<open>t\<close>
  of a lower group, in particular of the group just before, has already reached a
  terminal status. This holds for every schedule, concurrency bound and agent behaviour.
\<close>

theorem group_barrier:
  assumes dec: "decompose breakdown task_description enabled = Inr ts"
    and t: "t \<in> set ts" and t': "t' \<in> set ts"
    and lt: "execution_group t < execution_group t'"
    and p: "prefix p (events (execute_research cfg breakdown run_agent summarize synthesize sched
                                task_description enabled))"
    and started: "task_started (task_id t') \<in> set p"
  shows "task_completed (task_id t) \<in> set p \<or> task_failed (task_id t) \<in> set p"
proof -
  let ?seg = "segment cfg run_agent sched ts"
  let ?B = "concat (map ?seg (group_numbers ts))"
  let ?C = "[synthesis_started, synthesis_complete, session_completed]"
  have dist: "distinct (map task_id ts)"
    by (rule conjunct2[OF decompose_layered[OF dec]])
  have g: "execution_group t \<in> set (group_numbers ts)"
    using t by (simp add: set_group_numbers)
  have fin_B: "terminal_event cfg run_agent (task_id t) \<in> set ?B"
    by (rule segment_in_events[OF g terminal_in_segment[OF t]])
  have "prefix p ([session_started, decomposition_complete] @ (?B @ ?C))"
    using p by (simp add: events_execute_research[OF dec])
  then consider (head) "prefix p [session_started, decomposition_complete]"
    | (body) p1 where "p = [session_started, decomposition_complete] @ p1" "prefix p1 (?B @ ?C)"
    unfolding prefix_append[of p "[session_started, decomposition_complete]"] by blast
  then have "terminal_event cfg run_agent (task_id t) \<in> set p"
  proof cases
    case head
    then have "set p \<subseteq> set [session_started, decomposition_complete]"
      by (rule set_mono_prefix)
    then show ?thesis using started by auto
  next
    case body
    have s1: "task_started (task_id t') \<in> set p1"
      using started body(1) by simp
    from body(2) consider (inside) "prefix p1 ?B"
      | (past) p2 where "p1 = ?B @ p2"
      unfolding prefix_append[of p1 ?B] by blast
    then have "terminal_event cfg run_agent (task_id t) \<in> set p1"
    proof cases
      case inside
      show ?thesis
      proof (rule barrier_segments[where seg = ?seg and ts = ts and t = t and t' = t'
              and gs = "group_numbers ts" and fin = "\<lambda>t. terminal_event cfg run_agent (task_id t)"])
        show "execution_group u = h"
          if "u \<in> set ts" "task_started (task_id u) \<in> set (?seg h)" for h u
          using that by (rule group_run_started_only[OF dist])
        show "terminal_event cfg run_agent (task_id u) \<in> set (?seg (execution_group u))"
          if "u \<in> set ts" for u
          using that by (rule terminal_in_segment)
      qed (use t t' lt g inside s1 sorted_group_numbers in simp_all)
    next
      case past
      then show ?thesis using fin_B by simp
    qed
    then show ?thesis using body(1) by simp
  qed
  then show ?thesis
    using terminal_event_cases[of cfg run_agent "task_id t"] by auto
qed











text \<open>The example session: its task graph and its event stream.\<close>

lemma four_task_graph:
  "decompose four_task_breakdown ''Compare Transformer and SSM architectures'' research_team
     = Inr [\<lparr>task_id = 0, description = ''literature search'', assigned_agent = ''explorer'',
             priority = high, status = pending, dependencies = [],
             execution_order = 0, execution_group = 0\<rparr>,
            \<lparr>task_id = 1, description = ''complexity analysis'', assigned_agent = ''logician'',
             priority = medium, status = pending, dependencies = [0],
             execution_order = 1, execution_group = 1\<rparr>,
            \<lparr>task_id = 2, description = ''critique'', assigned_agent = ''critic'',
             priority = high, status = pending, dependencies = [0],
             execution_order = 0, execution_group = 1\<rparr>,
            \<lparr>task_id = 3, description = ''report'', assigned_agent = ''scribe'',
             priority = medium, status = pending, dependencies = [1, 2],
             execution_order = 0, execution_group = 2\<rparr>]"
  by code_simp

lemma example_session_events:
  "events example_session =
     [session_started, decomposition_complete, group_started 0,
      task_started 0, task_completed 0, group_completed 0, group_started 1,
      task_started 2, task_started 1, task_failed 1, task_progress 2,
      task_completed 2, group_completed 1, group_started 2, task_started 3,
      task_completed 3, group_completed 2, synthesis_started,
      synthesis_complete, session_completed]"
  by code_simp

text \<open>
  Claim C5 at the example session: when the critique (task 2, group 1) is dispatched,
  the literature search (task 0, group 0) has completed.
\<close>

theorem group_barrier_example:
  "prefix [session_started, decomposition_complete, group_started 0, task_started 0,
           task_completed 0, group_completed 0, group_started 1, task_started 2]
          (events example_session)
   \<and> (task_completed 0
         \<in> set [session_started, decomposition_complete, group_started 0, task_started 0,
                task_completed 0, group_completed 0, group_started 1, task_started 2]
       \<or> task_failed 0
         \<in> set [session_started, decomposition_complete, group_started 0, task_started 0,
                task_completed 0, group_completed 0, group_started 1, task_started 2])"
proof -
  let ?t0 = "\<lparr>task_id = 0, description = ''literature search'', assigned_agent = ''explorer'',
             priority = high, status = pending, dependencies = [],
             execution_order = 0, execution_group = 0\<rparr>"
  let ?t2 = "\<lparr>task_id = 2, description = ''critique'', assigned_agent = ''critic'',
             priority = high, status = pending, dependencies = [0],
             execution_order = 0, execution_group = 1\<rparr>"
  let ?p = "[session_started, decomposition_complete, group_started 0, task_started 0,
           task_completed 0, group_completed 0, group_started 1, task_started 2]"
  have p: "prefix ?p (events (execute_research default_config four_task_breakdown flaky_agents concat
             (\<lambda>insights. ''Synthesis: '' @ insights) interleaved
             ''Compare Transformer and SSM architectures'' research_team))"
    using example_session_events by (simp add: example_session_def)
  have "task_completed (task_id ?t0) \<in> set ?p \<or> task_failed (task_id ?t0) \<in> set ?p"
    by (rule group_barrier[OF four_task_graph _ _ _ p, where t' = ?t2]) simp_all
  then show ?thesis
    using p by (simp add: example_session_def)
qed



end
